theory Spec2Isabelle
  imports Main "HOL-Library.Sublist"
begin

section \<open>Values shared by every component\<close>

text \<open>
  Parsed JSON, as \<open>JSON.parse\<close> and \<open>express.json()\<close> hand it to the code. A JavaScript
  \<open>undefined\<close> (a property that is not there) is \<open>None\<close> of an option; numbers are
  integers here (ports, pids and tab ids are).
\<close>

datatype jval =
    JNull
  | JBool bool
  | JNum int
  | JStr string
  | JArr "jval list"
  | JObj "(string \<times> jval) list"

text \<open>JavaScript truthiness of a defined value, and of a possibly undefined one.\<close>

fun truthy :: "jval \<Rightarrow> bool" where
  "truthy JNull = False"
| "truthy (JBool b) = b"
| "truthy (JNum n) = (n \<noteq> 0)"
| "truthy (JStr s) = (s \<noteq> [])"
| "truthy (JArr xs) = True"
| "truthy (JObj kvs) = True"

fun truthy_opt :: "jval option \<Rightarrow> bool" where
  "truthy_opt None = False"
| "truthy_opt (Some v) = truthy v"

text \<open>Property access \<open>v.k\<close> on a parsed value: only objects carry named properties.\<close>

fun get_prop :: "jval \<Rightarrow> string \<Rightarrow> jval option" where
  "get_prop (JObj kvs) k = map_of kvs k"
| "get_prop v k = None"

text \<open>
  A JavaScript \<open>Map\<close> (and a plain object used as a dictionary), kept as an association
  list in insertion order: \<open>get\<close> finds the entry of a key, \<open>set\<close> overwrites it in place
  or appends a new one, \<open>delete\<close> drops it.
\<close>

fun map_get :: "('k \<times> 'v) list \<Rightarrow> 'k \<Rightarrow> 'v option" where
  "map_get [] k = None"
| "map_get ((k', v) # m) k = (if k' = k then Some v else map_get m k)"

fun map_set :: "('k \<times> 'v) list \<Rightarrow> 'k \<Rightarrow> 'v \<Rightarrow> ('k \<times> 'v) list" where
  "map_set [] k v = [(k, v)]"
| "map_set ((k', v') # m) k v = (if k' = k then (k, v) # m else (k', v') # map_set m k v)"

definition map_delete :: "('k \<times> 'v) list \<Rightarrow> 'k \<Rightarrow> ('k \<times> 'v) list" where
  "map_delete m k = filter (\<lambda>kv. fst kv \<noteq> k) m"

definition map_keys :: "('k \<times> 'v) list \<Rightarrow> 'k list" where
  "map_keys m = map fst m"

definition map_values :: "('k \<times> 'v) list \<Rightarrow> 'v list" where
  "map_values m = map snd m"

text \<open>Decimal rendering of a number, as template literals and \<open>toString\<close> produce it.\<close>

definition digit_char :: "nat \<Rightarrow> char" where
  "digit_char d = ''0123456789'' ! d"

fun show_nat :: "nat \<Rightarrow> string" where
  "show_nat n = (if n < 10 then [digit_char n] else show_nat (n div 10) @ [digit_char (n mod 10)])"

declare show_nat.simps [simp del]

definition show_int :: "int \<Rightarrow> string" where
  "show_int i = (if i < 0 then CHR ''-'' # show_nat (nat (- i)) else show_nat (nat i))"

text \<open>An optional string inside a template literal: \<open>undefined\<close> prints as that word.\<close>

fun show_opt :: "string option \<Rightarrow> string" where
  "show_opt None = ''undefined''"
| "show_opt (Some s) = s"


section \<open>Port allocation and the server registry (config.ts)\<close>

subsection \<open>Port allocation\<close>

text \<open>
  \<open>isPortAvailable\<close> binds a fresh server twice: \<open>server.listen(port)\<close> on the default
  address and \<open>server.listen(port, "0.0.0.0")\<close>. For a port outside 0..65535 \<open>listen\<close>
  throws \<open>ERR_SOCKET_BAD_PORT\<close> before anything is bound; the promise rejects and the
  error leaves \<open>isPortAvailable\<close> (\<open>Inl\<close>). For a valid port, whether a bind ends in the
  \<open>listening\<close> event (\<open>True\<close>) or the \<open>error\<close> event (\<open>False\<close>) is the operating system's
  answer, a parameter here. The second bind is only tried after the first succeeded.
\<close>

datatype bind_address = DefaultAddress | IPv4Wildcard

definition valid_port :: "int \<Rightarrow> bool" where
  "valid_port port \<longleftrightarrow> 0 \<le> port \<and> port \<le> 65535"

definition isPortAvailable :: "(bind_address \<Rightarrow> int \<Rightarrow> bool) \<Rightarrow> int \<Rightarrow> string + bool" where
  "isPortAvailable bind port =
     (if \<not> valid_port port then Inl ''ERR_SOCKET_BAD_PORT''
      else if \<not> bind DefaultAddress port then Inr False
      else Inr (bind IPv4Wildcard port))"

record portRange =
  range_start :: int
  range_end :: int
  range_step :: int

text \<open>
  The loop \<open>for (let port = start; port < end; port += step)\<close>. Nothing in the source
  bounds \<open>step\<close> from below, so the loop need not end: \<open>None\<close> is the run that never
  leaves it, \<open>Some (Inl e)\<close> the error that \<open>await isPortAvailable(port)\<close> throws,
  \<open>Some (Inr (Some p))\<close> the \<open>return port\<close>, \<open>Some (Inr None)\<close> the normal exit of the
  loop.
\<close>

partial_function (option) findAvailablePort_loop ::
  "(bind_address \<Rightarrow> int \<Rightarrow> bool) \<Rightarrow> int \<Rightarrow> int \<Rightarrow> int \<Rightarrow> (string + int option) option" where
  "findAvailablePort_loop bind end step port =
     (if port < end then
        (case isPortAvailable bind port of
           Inl e \<Rightarrow> Some (Inl e)
         | Inr available \<Rightarrow>
             (if available then Some (Inr (Some port))
              else findAvailablePort_loop bind end step (port + step)))
      else Some (Inr None))"

definition exhausted_message :: "portRange \<Rightarrow> string" where
  "exhausted_message r =
     ''No available ports in range '' @ show_int (range_start r) @ ''-'' @ show_int (range_end r)
       @ '' (step '' @ show_int (range_step r) @ ''). ''
       @ ''Too many dev-browser servers may be running. ''
       @ ''Check ~/.dev-browser/active-servers.json for active servers.''"

definition findAvailablePort ::
  "(bind_address \<Rightarrow> int \<Rightarrow> bool) \<Rightarrow> portRange \<Rightarrow> (string + int) option" where
  "findAvailablePort bind r =
     (case findAvailablePort_loop bind (range_end r) (range_step r) (range_start r) of
        None \<Rightarrow> None
      | Some (Inl e) \<Rightarrow> Some (Inl e)
      | Some (Inr (Some port)) \<Rightarrow> Some (Inr port)
      | Some (Inr None) \<Rightarrow> Some (Inl (exhausted_message r)))"

text \<open>
  The ports \<open>start\<close>, \<open>start + step\<close>, ... below a bound, in order, for a positive step:
  below \<open>end\<close> they are the ports the loop visits; below \<open>end + 1\<close> they include \<open>end\<close>
  itself, which the configuration documents as the last port to try.
\<close>

function candidates :: "int \<Rightarrow> int \<Rightarrow> int \<Rightarrow> int list" where
  "candidates end step port =
     (if 0 < step \<and> port < end then port # candidates end step (port + step) else [])"
  by pat_completeness auto
termination
  by (relation "measure (\<lambda>(e, st, p). nat (e - p))") auto

declare candidates.simps [simp del]

subsection \<open>The registry file\<close>

datatype server_mode = Standalone | External

record ServerInfo =
  pid :: int
  cdpPort :: "int option"
  browserPid :: "int option"
  mode :: server_mode
  startedAt :: string

text \<open>
  \<open>active-servers.json\<close>: absent, not parsable as an object, or an object whose values
  are either a bare pid (the old format) or a \<open>ServerInfo\<close>. Keys are kept in the order
  \<open>Object.entries\<close> lists them.
\<close>

datatype file_entry = OldPid int | Info ServerInfo

datatype servers_file = Missing | Unparsable | Content "(string \<times> file_entry) list"

text \<open>
  The operating system as the registry functions see it: \<open>process.kill(pid, 0)\<close> succeeds
  (\<open>processExists\<close>), what \<open>lsof -ti:<port>\<close> prints (\<open>None\<close> when \<open>execSync\<close> throws), the
  clock as an ISO string, and the milliseconds \<open>new Date(s).getTime()\<close> reads from a
  string (\<open>None\<close> for \<open>NaN\<close>).
\<close>

record os =
  processExists :: "int \<Rightarrow> bool"
  lsof :: "int \<Rightarrow> string option"
  now :: string
  getTime :: "string \<Rightarrow> int option"

definition loadServersFile :: "os \<Rightarrow> servers_file \<Rightarrow> (string \<times> ServerInfo) list" where
  "loadServersFile sys f =
     (case f of
        Missing \<Rightarrow> []
      | Unparsable \<Rightarrow> []
      | Content entries \<Rightarrow>
          map (\<lambda>(port, v).
                 (port, case v of
                          OldPid p \<Rightarrow> \<lparr>pid = p, cdpPort = None, browserPid = None,
                                       mode = Standalone, startedAt = now sys\<rparr>
                        | Info i \<Rightarrow> i)) entries)"

definition saveServersFile :: "(string \<times> ServerInfo) list \<Rightarrow> servers_file" where
  "saveServersFile servers = Content (map (\<lambda>(port, i). (port, Info i)) servers)"

definition cleanupStaleEntries ::
  "os \<Rightarrow> (string \<times> ServerInfo) list \<Rightarrow> (string \<times> ServerInfo) list" where
  "cleanupStaleEntries sys servers = filter (\<lambda>(port, info). processExists sys (pid info)) servers"

record register_options =
  opt_cdpPort :: "int option"
  opt_browserPid :: "int option"
  opt_mode :: "server_mode option"

definition registerServer ::
  "os \<Rightarrow> int \<Rightarrow> int \<Rightarrow> register_options option \<Rightarrow> servers_file \<Rightarrow> servers_file" where
  "registerServer sys port p options f =
     (let servers = loadServersFile sys f;
          servers = cleanupStaleEntries sys servers;
          servers = map_set servers (show_int port)
                      \<lparr>pid = p,
                       cdpPort = (case options of None \<Rightarrow> None | Some opt \<Rightarrow> opt_cdpPort opt),
                       browserPid = (case options of None \<Rightarrow> None | Some opt \<Rightarrow> opt_browserPid opt),
                       mode = (case options of
                                 None \<Rightarrow> Standalone
                               | Some opt \<Rightarrow> (case opt_mode opt of None \<Rightarrow> Standalone | Some m \<Rightarrow> m)),
                       startedAt = now sys\<rparr>
      in saveServersFile servers)"

text \<open>\<open>unregisterServer\<close> returns the number of remaining servers and writes the file.\<close>

definition unregisterServer :: "os \<Rightarrow> int \<Rightarrow> servers_file \<Rightarrow> nat \<times> servers_file" where
  "unregisterServer sys port f =
     (let servers = loadServersFile sys f;
          servers = map_delete servers (show_int port);
          servers = cleanupStaleEntries sys servers
      in (length (map_keys servers), saveServersFile servers))"

definition getActiveServerCount :: "os \<Rightarrow> servers_file \<Rightarrow> nat" where
  "getActiveServerCount sys f =
     (let servers = loadServersFile sys f;
          cleaned = cleanupStaleEntries sys servers
      in length (map_keys cleaned))"

text \<open>
  \<open>parseInt(s, 10)\<close>: leading white space is skipped, a sign is read, then the longest run
  of decimal digits; no digit at all is \<open>NaN\<close> (\<open>None\<close>).
\<close>

definition is_space :: "char \<Rightarrow> bool" where
  "is_space c = (c \<in> set [CHR '' '', CHR 0x09, CHR 0x0A, CHR 0x0B, CHR 0x0C, CHR 0x0D])"

definition is_digit :: "char \<Rightarrow> bool" where
  "is_digit c = (c \<in> set ''0123456789'')"

definition digit_val :: "char \<Rightarrow> nat" where
  "digit_val c = of_char c - 48"

definition digits_val :: "string \<Rightarrow> nat" where
  "digits_val ds = foldl (\<lambda>acc c. 10 * acc + digit_val c) 0 ds"

definition parseInt10 :: "string \<Rightarrow> int option" where
  "parseInt10 s =
     (let t = dropWhile is_space s;
          neg = (t \<noteq> [] \<and> hd t = CHR ''-'');
          u = (if t \<noteq> [] \<and> (hd t = CHR ''-'' \<or> hd t = CHR ''+'') then tl t else t);
          ds = takeWhile is_digit u
      in if ds = [] then None
         else Some (if neg then - int (digits_val ds) else int (digits_val ds)))"

definition trim :: "string \<Rightarrow> string" where
  "trim s = rev (dropWhile is_space (rev (dropWhile is_space s)))"

text \<open>
  \<open>getProcessOnPort\<close>: the first line of the trimmed \<open>lsof\<close> output, read as a pid;
  \<open>null\<close> when \<open>lsof\<close> fails, prints nothing, or prints no number.
\<close>

definition getProcessOnPort :: "os \<Rightarrow> int \<Rightarrow> int option" where
  "getProcessOnPort sys port =
     (case lsof sys port of
        None \<Rightarrow> None
      | Some out \<Rightarrow>
          (let output = trim out
           in if output \<noteq> [] then parseInt10 (takeWhile (\<lambda>c. c \<noteq> CHR 0x0A) output)
              else None))"

record OrphanedBrowser =
  orphan_cdpPort :: int
  orphan_pid :: int

text \<open>The set \<open>activeCdpPorts\<close>: a falsy \<open>info.cdpPort\<close> (absent, or 0) is not added.\<close>

definition activeCdpPorts :: "(string \<times> ServerInfo) list \<Rightarrow> int set" where
  "activeCdpPorts cleanedServers =
     set (concat (map (\<lambda>info. case cdpPort info of
                              None \<Rightarrow> []
                            | Some p \<Rightarrow> (if p \<noteq> 0 then [p] else []))
                      (map_values cleanedServers)))"

fun scan_ports :: "os \<Rightarrow> int set \<Rightarrow> int list \<Rightarrow> OrphanedBrowser list" where
  "scan_ports sys active [] = []"
| "scan_ports sys active (p # ps) =
     (if p \<in> active then scan_ports sys active ps
      else (case getProcessOnPort sys p of
              None \<Rightarrow> scan_ports sys active ps
            | Some q \<Rightarrow> \<lparr>orphan_cdpPort = p, orphan_pid = q\<rparr> # scan_ports sys active ps))"

definition detectOrphanedBrowsers ::
  "os \<Rightarrow> int list option \<Rightarrow> servers_file \<Rightarrow> OrphanedBrowser list" where
  "detectOrphanedBrowsers sys cdpPorts f =
     (let servers = loadServersFile sys f;
          cleanedServers = cleanupStaleEntries sys servers;
          portsToCheck = (case cdpPorts of None \<Rightarrow> [9223, 9225, 9227, 9229, 9231] | Some ps \<Rightarrow> ps)
      in scan_ports sys (activeCdpPorts cleanedServers) portsToCheck)"

text \<open>
  \<open>getMostRecentServer\<close>: the cleaned registry is written back when something was
  pruned; the entry with the greatest start time (greater than 0) is returned, the first
  one among equals.
\<close>

fun most_recent ::
  "os \<Rightarrow> (string \<times> ServerInfo) list \<Rightarrow> int \<Rightarrow> (int option \<times> ServerInfo) option
     \<Rightarrow> (int option \<times> ServerInfo) option" where
  "most_recent sys [] t best = best"
| "most_recent sys ((portStr, info) # rest) t best =
     (case getTime sys (startedAt info) of
        Some ms \<Rightarrow> (if ms > t then most_recent sys rest ms (Some (parseInt10 portStr, info))
                   else most_recent sys rest t best)
      | None \<Rightarrow> most_recent sys rest t best)"

definition getMostRecentServer ::
  "os \<Rightarrow> servers_file \<Rightarrow> (int option \<times> ServerInfo) option \<times> servers_file" where
  "getMostRecentServer sys f =
     (let servers = loadServersFile sys f;
          cleaned = cleanupStaleEntries sys servers;
          f' = (if length (map_keys servers) \<noteq> length (map_keys cleaned)
                then saveServersFile cleaned else f)
      in (most_recent sys cleaned 0 None, f'))"

text \<open>
  \<open>killStaleServers\<close>: every entry with a dead pid is deleted and counted; the file is
  written only when something was deleted.
\<close>

fun kill_loop ::
  "os \<Rightarrow> (string \<times> ServerInfo) list \<Rightarrow> (string \<times> ServerInfo) list \<Rightarrow> nat
     \<Rightarrow> (string \<times> ServerInfo) list \<times> nat" where
  "kill_loop sys [] servers killed = (servers, killed)"
| "kill_loop sys ((portStr, info) # rest) servers killed =
     (if \<not> processExists sys (pid info)
      then kill_loop sys rest (map_delete servers portStr) (Suc killed)
      else kill_loop sys rest servers killed)"

definition killStaleServers :: "os \<Rightarrow> servers_file \<Rightarrow> nat \<times> servers_file" where
  "killStaleServers sys f =
     (let servers = loadServersFile sys f;
          (servers', killed) = kill_loop sys servers servers 0
      in (killed, if killed > 0 then saveServersFile servers' else f))"


section \<open>Page registry of the HTTP server (external-browser.ts)\<close>

text \<open>
  \<open>PageEntry\<close> is \<open>{ page, targetId }\<close>; the page handle is a number that identifies the
  Playwright page object. The registry is the \<open>Map<string, PageEntry>\<close> of the server.
\<close>

record PageEntry =
  entry_page :: nat
  entry_targetId :: string

text \<open>
  What a route hands to \<open>res\<close>: the status code and the JSON body. The \<open>wsEndpoint\<close> field
  of a page response is the constant of the running server and is left out.
\<close>

datatype body =
    ErrorBody string
  | PageBody string string string
  | PagesBody "string list"
  | SuccessBody bool

record response =
  status :: nat
  payload :: body

text \<open>
  The state the routes and the cleanup work on: the registry, the close observers installed
  with \<open>page.on("close", ...)\<close> (page handle and the name its observer deletes), the pages
  that are open in the browser context, the next fresh page handle, the idle timer, the
  open sockets, the cleanup guard, whether the CDP connection and the HTTP listener are up,
  the port of this server, the registry file, and the log of outward effects in the order
  they happen.
\<close>

datatype effect =
    ClearTimeout
  | ConsoleLog string
  | SocketDestroy nat
  | PageClose nat
  | BrowserClose
  | ServerClose
  | UnregisterServer int
  | ProcessExit nat
  | ProcessKilled string

record server_state =
  registry :: "(string \<times> PageEntry) list"
  observers :: "(nat \<times> string) list"
  open_pages :: "nat list"
  next_page :: nat
  idleTimer :: bool
  connections :: "nat list"
  cleaningUp :: bool
  browser_connected :: bool
  listening :: bool
  server_port :: int
  servers :: servers_file
  effects :: "effect list"

text \<open>
  The close event of a page: the page is no longer open and every observer installed on
  it runs \<open>registry.delete(name)\<close>.
\<close>

definition on_close :: "nat \<Rightarrow> server_state \<Rightarrow> server_state" where
  "on_close p s =
     s\<lparr> open_pages := filter (\<lambda>q. q \<noteq> p) (open_pages s),
        registry := fold (\<lambda>(q, n) r. if q = p then map_delete r n else r) (observers s) (registry s) \<rparr>"

text \<open>
  \<open>await page.close()\<close>: the driver either rejects (the outcome the cleanup tolerates) or
  closes the page, which fires its close event when it was still open.
\<close>

definition page_close :: "(nat \<Rightarrow> bool) \<Rightarrow> nat \<Rightarrow> server_state \<Rightarrow> string + server_state" where
  "page_close close_rejects p s =
     (if close_rejects p then Inl ''page.close failed''
      else Inr (if p \<in> set (open_pages s) then on_close p s else s))"

text \<open>What creating a page can come to: \<open>withTimeout(context.newPage())\<close> and \<open>getTargetId\<close>.\<close>

datatype creation =
    Created string
  | NewPageTimeout
  | NewPageFailed string
  | TargetIdFailed string

text \<open>The three validation steps of \<open>POST /pages\<close>, in the order of the source.\<close>

fun is_string :: "jval option \<Rightarrow> bool" where
  "is_string (Some (JStr n)) = True"
| "is_string v = False"

definition bad_request :: "string \<Rightarrow> response" where
  "bad_request msg = \<lparr>status = 400, payload = ErrorBody msg\<rparr>"

definition validate_name :: "jval option \<Rightarrow> response + string" where
  "validate_name name =
     (if \<not> truthy_opt name \<or> \<not> is_string name then
        Inl (bad_request ''name is required and must be a string'')
      else (case name of
              Some (JStr n) \<Rightarrow>
                (if length n = 0 then Inl (bad_request ''name cannot be empty'')
                 else if length n > 256 then Inl (bad_request ''name must be 256 characters or less'')
                 else Inr n)
            | _ \<Rightarrow> Inl (bad_request ''name is required and must be a string'')))"

text \<open>
  \<open>app.post("/pages")\<close>. \<open>Inl\<close> is an exception leaving the handler (no response is
  written); \<open>Inr\<close> is the response.
\<close>

definition post_pages :: "creation \<Rightarrow> jval \<Rightarrow> server_state \<Rightarrow> (string + response) \<times> server_state" where
  "post_pages outcome req_body s =
     (case validate_name (get_prop req_body ''name'') of
        Inl bad \<Rightarrow> (Inr bad, s)
      | Inr name \<Rightarrow>
          (case map_get (registry s) name of
             Some entry \<Rightarrow>
               (Inr \<lparr>status = 200, payload = PageBody name (entry_targetId entry) ''launch''\<rparr>, s)
           | None \<Rightarrow>
               (case outcome of
                  NewPageTimeout \<Rightarrow> (Inl ''Timeout: Page creation timed out after 30s'', s)
                | NewPageFailed e \<Rightarrow> (Inl e, s)
                | TargetIdFailed e \<Rightarrow>
                    (Inl e, s\<lparr> open_pages := open_pages s @ [next_page s],
                              next_page := Suc (next_page s) \<rparr>)
                | Created tid \<Rightarrow>
                    (Inr \<lparr>status = 200, payload = PageBody name tid ''launch''\<rparr>,
                     s\<lparr> open_pages := open_pages s @ [next_page s],
                        next_page := Suc (next_page s),
                        registry := map_set (registry s) name
                                      \<lparr>entry_page = next_page s, entry_targetId = tid\<rparr>,
                        observers := observers s @ [(next_page s, name)] \<rparr>))))"

text \<open>\<open>app.get("/pages")\<close>: the names, in the order of the map.\<close>

definition get_pages :: "server_state \<Rightarrow> response" where
  "get_pages s = \<lparr>status = 200, payload = PagesBody (map_keys (registry s))\<rparr>"

text \<open>
  \<open>decodeURIComponent\<close> of the runtime, on strings as sequences of bytes (a character
  beyond ASCII is its UTF-8 bytes). A character other than \<open>%\<close> is copied. A \<open>%\<close> must be
  followed by two hexadecimal digits, which give a byte; a byte below 128 is the decoded
  character; a greater one starts a UTF-8 sequence of two to four bytes, all of which
  must be escaped and together encode a code point. Anything else is the \<open>URIError\<close>
  (\<open>None\<close>).
\<close>

definition hex_val :: "char \<Rightarrow> nat option" where
  "hex_val c =
     (let n = (of_char c :: nat)
      in if 48 \<le> n \<and> n \<le> 57 then Some (n - 48)
         else if 65 \<le> n \<and> n \<le> 70 then Some (n - 55)
         else if 97 \<le> n \<and> n \<le> 102 then Some (n - 87)
         else None)"

definition escape_byte :: "string \<Rightarrow> nat option" where
  "escape_byte s =
     (case s of
        c # h1 # h2 # rest \<Rightarrow>
          (if c = CHR ''%'' then
             (case hex_val h1 of
                None \<Rightarrow> None
              | Some a \<Rightarrow> (case hex_val h2 of None \<Rightarrow> None | Some b \<Rightarrow> Some (16 * a + b)))
           else None)
      | _ \<Rightarrow> None)"

text \<open>The number of leading one bits of a byte, 5 standing for every number above 4.\<close>

definition octet_count :: "nat \<Rightarrow> nat" where
  "octet_count b =
     (if b < 128 then 0 else if b < 192 then 1 else if b < 224 then 2
      else if b < 240 then 3 else if b < 248 then 4 else 5)"

fun take_escapes :: "nat \<Rightarrow> string \<Rightarrow> nat list option" where
  "take_escapes 0 s = Some []"
| "take_escapes (Suc k) s =
     (case escape_byte s of
        None \<Rightarrow> None
      | Some b \<Rightarrow> map_option (Cons b) (take_escapes k (drop 3 s)))"

definition continuation :: "nat \<Rightarrow> bool" where
  "continuation b \<longleftrightarrow> 128 \<le> b \<and> b \<le> 191"

fun valid_utf8 :: "nat list \<Rightarrow> bool" where
  "valid_utf8 [b1, b2] = (194 \<le> b1 \<and> b1 \<le> 223 \<and> continuation b2)"
| "valid_utf8 [b1, b2, b3] =
     (continuation b3
      \<and> ((b1 = 224 \<and> 160 \<le> b2 \<and> b2 \<le> 191)
         \<or> (225 \<le> b1 \<and> b1 \<le> 236 \<and> continuation b2)
         \<or> (b1 = 237 \<and> 128 \<le> b2 \<and> b2 \<le> 159)
         \<or> (238 \<le> b1 \<and> b1 \<le> 239 \<and> continuation b2)))"
| "valid_utf8 [b1, b2, b3, b4] =
     (continuation b3 \<and> continuation b4
      \<and> ((b1 = 240 \<and> 144 \<le> b2 \<and> b2 \<le> 191)
         \<or> (241 \<le> b1 \<and> b1 \<le> 243 \<and> continuation b2)
         \<or> (b1 = 244 \<and> 128 \<le> b2 \<and> b2 \<le> 143)))"
| "valid_utf8 bs = False"

fun decodeURIComponent :: "string \<Rightarrow> string option" where
  "decodeURIComponent [] = Some []"
| "decodeURIComponent (c # cs) =
     (if c \<noteq> CHR ''%'' then map_option (Cons c) (decodeURIComponent cs)
      else (case escape_byte (c # cs) of
              None \<Rightarrow> None
            | Some b \<Rightarrow>
                (if octet_count b = 0 then
                   map_option (Cons (char_of b)) (decodeURIComponent (drop 2 cs))
                 else if octet_count b = 1 \<or> octet_count b > 4 then None
                 else (case take_escapes (octet_count b - 1) (drop 2 cs) of
                         None \<Rightarrow> None
                       | Some bs \<Rightarrow>
                           (if valid_utf8 (b # bs) then
                              map_option (append (map char_of (b # bs)))
                                (decodeURIComponent (drop (2 + 3 * (octet_count b - 1)) cs))
                            else None)))))"

text \<open>
  \<open>app.delete("/pages/:name")\<close>, on \<open>req.params.name\<close> as the router hands it over. A
  \<open>URIError\<close> of \<open>decodeURIComponent\<close> and a rejection of \<open>page.close()\<close> leave the handler
  as exceptions (\<open>Inl\<close>).
\<close>

definition delete_page ::
  "(nat \<Rightarrow> bool) \<Rightarrow> string \<Rightarrow> server_state \<Rightarrow> (string + response) \<times> server_state" where
  "delete_page close_rejects raw s =
     (case decodeURIComponent raw of
        None \<Rightarrow> (Inl ''URIError: URI malformed'', s)
      | Some name \<Rightarrow>
          (case map_get (registry s) name of
             Some entry \<Rightarrow>
               (case page_close close_rejects (entry_page entry) s of
                  Inl e \<Rightarrow> (Inl e, s)
                | Inr s1 \<Rightarrow>
                    (Inr \<lparr>status = 200, payload = SuccessBody True\<rparr>,
                     s1\<lparr> registry := map_delete (registry s1) name \<rparr>))
           | None \<Rightarrow> (Inr \<lparr>status = 404, payload = ErrorBody ''page not found''\<rparr>, s)))"

subsection \<open>Shutdown\<close>

text \<open>
  The loop \<open>for (const entry of registry.values())\<close> of \<open>cleanup\<close>, with its \<open>try\<close> around
  \<open>page.close()\<close>. The iterator of a \<open>Map\<close> is live: an entry that a close observer has
  deleted before its turn is not visited.
\<close>

fun close_pages ::
  "(nat \<Rightarrow> bool) \<Rightarrow> (string \<times> PageEntry) list \<Rightarrow> server_state \<Rightarrow> server_state" where
  "close_pages close_rejects [] s = s"
| "close_pages close_rejects ((name, entry) # rest) s =
     (if map_get (registry s) name = None then close_pages close_rejects rest s
      else (let s1 = s\<lparr> effects := effects s @ [PageClose (entry_page entry)] \<rparr>
            in case page_close close_rejects (entry_page entry) s1 of
                 Inl e \<Rightarrow> close_pages close_rejects rest s1
               | Inr s2 \<Rightarrow> close_pages close_rejects rest s2))"

definition stopped_message :: "nat \<Rightarrow> string" where
  "stopped_message remainingServers =
     ''Server stopped. Browser remains open. '' @ show_nat remainingServers
       @ '' other server(s) still running.''"

text \<open>
  \<open>cleanup\<close> from its entry to its end, nothing else running while it waits.
  \<open>browser.close()\<close> on a browser reached with \<open>connectOverCDP\<close> ends the connection; the
  source sends no signal to the browser process anywhere in this function.
\<close>

definition cleanup :: "os \<Rightarrow> (nat \<Rightarrow> bool) \<Rightarrow> server_state \<Rightarrow> server_state" where
  "cleanup sys close_rejects s =
     (if cleaningUp s then s
      else
        (let s = s\<lparr> cleaningUp := True \<rparr>;
             s = (if idleTimer s
                  then s\<lparr> idleTimer := False, effects := effects s @ [ClearTimeout] \<rparr>
                  else s);
             s = s\<lparr> effects := effects s @ [ConsoleLog (CHR 0x0A # ''Shutting down...'')] \<rparr>;
             s = s\<lparr> effects := effects s @ map SocketDestroy (connections s), connections := [] \<rparr>;
             s = close_pages close_rejects (registry s) s;
             s = s\<lparr> registry := [] \<rparr>;
             s = s\<lparr> browser_connected := False, effects := effects s @ [BrowserClose] \<rparr>;
             s = s\<lparr> listening := False, effects := effects s @ [ServerClose] \<rparr>;
             (remainingServers, f) = unregisterServer sys (server_port s) (servers s)
         in s\<lparr> servers := f,
               effects := effects s @ [UnregisterServer (server_port s),
                                       ConsoleLog (stopped_message remainingServers)] \<rparr>))"

text \<open>
  \<open>cleanup\<close> is an \<open>async\<close> function: it runs up to an \<open>await\<close>, and goes on when the awaited
  call has settled; in between, other handlers of the process run. The pieces of the body
  between its awaits follow. \<open>cleanup_begin\<close> is the part before the loop over the pages.
\<close>

definition cleanup_begin :: "server_state \<Rightarrow> server_state" where
  "cleanup_begin s =
     (let s = s\<lparr> cleaningUp := True \<rparr>;
          s = (if idleTimer s
               then s\<lparr> idleTimer := False, effects := effects s @ [ClearTimeout] \<rparr>
               else s);
          s = s\<lparr> effects := effects s @ [ConsoleLog (CHR 0x0A # ''Shutting down...'')] \<rparr>
      in s\<lparr> effects := effects s @ map SocketDestroy (connections s), connections := [] \<rparr>)"

text \<open>
  Where the body waits: for \<open>page.close()\<close> of a page, the entries after it still to be
  visited, or for \<open>browser.close()\<close>.
\<close>

datatype waiting = PageClosing nat "(string \<times> PageEntry) list" | BrowserClosing

text \<open>
  The loop from the entries still to be visited up to the next \<open>await\<close>: an entry that is
  no longer registered is passed over; \<open>page.close()\<close> is called on the first one that is;
  when none is left, the registry is cleared and \<open>browser.close()\<close> is called.
\<close>

fun visit :: "(string \<times> PageEntry) list \<Rightarrow> server_state \<Rightarrow> waiting \<times> server_state" where
  "visit [] s = (BrowserClosing, s\<lparr> registry := [], effects := effects s @ [BrowserClose] \<rparr>)"
| "visit ((name, entry) # rest) s =
     (if map_get (registry s) name = None then visit rest s
      else (PageClosing (entry_page entry) rest,
            s\<lparr> effects := effects s @ [PageClose (entry_page entry)] \<rparr>))"

text \<open>The part after \<open>browser.close()\<close> has settled, either way.\<close>

definition cleanup_end :: "os \<Rightarrow> server_state \<Rightarrow> server_state" where
  "cleanup_end sys s =
     (let s = s\<lparr> browser_connected := False \<rparr>;
          s = s\<lparr> listening := False, effects := effects s @ [ServerClose] \<rparr>;
          (remainingServers, f) = unregisterServer sys (server_port s) (servers s)
      in s\<lparr> servers := f,
            effects := effects s @ [UnregisterServer (server_port s),
                                    ConsoleLog (stopped_message remainingServers)] \<rparr>)"

text \<open>
  The body going on after the call it waited for has settled: up to the next \<open>await\<close>
  (\<open>Some\<close>), or to its end (\<open>None\<close>). A rejected \<open>page.close()\<close> is caught.
\<close>

definition cleanup_resume ::
  "os \<Rightarrow> (nat \<Rightarrow> bool) \<Rightarrow> waiting \<Rightarrow> server_state \<Rightarrow> waiting option \<times> server_state" where
  "cleanup_resume sys close_rejects w s =
     (case w of
        PageClosing p rest \<Rightarrow>
          (let (w', s') = visit rest (case page_close close_rejects p s of
                                        Inl e \<Rightarrow> s
                                      | Inr s1 \<Rightarrow> s1)
           in (Some w', s'))
      | BrowserClosing \<Rightarrow> (None, cleanup_end sys s))"

text \<open>
  What sets \<open>cleanup\<close> off: the idle timer (with the minutes its message prints), a signal
  (\<open>SIGINT\<close>, \<open>SIGTERM\<close>, \<open>SIGHUP\<close>), an uncaught exception or unhandled rejection, and \<open>stop()\<close>
  of the returned server object. The middleware arms the idle timer again on every
  request, so its callback is taken to run whenever it is scheduled.
\<close>

datatype trigger = IdleTimerFired string | Signal string | UnhandledError string | Stop

text \<open>
  The process: the state of the server, whether the signal and error handlers are
  installed (\<open>stop()\<close> removes them), the one run of the cleanup body that is waiting (where
  it waits and which trigger's handler awaits it), and whether the process has ended.
\<close>

record process =
  p_state :: server_state
  p_handlers :: bool
  p_awaiting :: "(waiting \<times> trigger) option"
  p_over :: bool

definition serving :: "server_state \<Rightarrow> process" where
  "serving s = \<lparr> p_state = s, p_handlers = True, p_awaiting = None, p_over = False \<rparr>"

definition emit :: "effect list \<Rightarrow> process \<Rightarrow> process" where
  "emit es P = P\<lparr> p_state := (p_state P)\<lparr> effects := effects (p_state P) @ es \<rparr> \<rparr>"

text \<open>What a handler prints before it calls \<open>cleanup\<close>.\<close>

fun trigger_log :: "trigger \<Rightarrow> effect list" where
  "trigger_log (IdleTimerFired minutes) =
     [ConsoleLog (CHR 0x0A # ''Shutting down due to '' @ minutes @ '' minutes of inactivity'')]"
| "trigger_log (UnhandledError err) = [ConsoleLog (''Unhandled error: '' @ err)]"
| "trigger_log t = []"

text \<open>
  What a handler does once the promise of \<open>cleanup\<close> has resolved: \<open>process.exit\<close>, except
  for \<open>stop()\<close>, which returns to its caller.
\<close>

fun trigger_exit :: "trigger \<Rightarrow> effect list" where
  "trigger_exit (UnhandledError err) = [ProcessExit 1]"
| "trigger_exit Stop = []"
| "trigger_exit t = [ProcessExit 0]"

definition after_cleanup :: "trigger \<Rightarrow> process \<Rightarrow> process" where
  "after_cleanup t P =
     (if trigger_exit t = [] then P else (emit (trigger_exit t) P)\<lparr> p_over := True \<rparr>)"

text \<open>
  A call of \<open>cleanup\<close> by the handler of a trigger. With \<open>cleaningUp\<close> set the call returns
  a resolved promise, and the handler goes on before anything else runs. Otherwise the
  body runs up to its first \<open>await\<close>.
\<close>

definition call_cleanup :: "trigger \<Rightarrow> process \<Rightarrow> process" where
  "call_cleanup t P =
     (if cleaningUp (p_state P) then after_cleanup t P
      else (let b = cleanup_begin (p_state P);
                (w, s) = visit (registry b) b
            in P\<lparr> p_state := s, p_awaiting := Some (w, t) \<rparr>))"

text \<open>
  A trigger. A signal or an error that finds the handlers removed gets the default of the
  runtime: the signal kills the process, the error ends it with code 1.
\<close>

definition on_trigger :: "trigger \<Rightarrow> process \<Rightarrow> process" where
  "on_trigger t P =
     (case t of
        Signal sig \<Rightarrow>
          (if p_handlers P then call_cleanup t P
           else (emit [ProcessKilled sig] P)\<lparr> p_over := True \<rparr>)
      | UnhandledError err \<Rightarrow>
          (if p_handlers P then call_cleanup t (emit (trigger_log t) P)
           else (emit [ProcessExit 1] P)\<lparr> p_over := True \<rparr>)
      | IdleTimerFired minutes \<Rightarrow> call_cleanup t (emit (trigger_log t) P)
      | Stop \<Rightarrow> call_cleanup t (P\<lparr> p_handlers := False \<rparr>))"

text \<open>The call the body waits for settles; at the end of the body its caller goes on.\<close>

definition on_resume :: "os \<Rightarrow> (nat \<Rightarrow> bool) \<Rightarrow> process \<Rightarrow> process" where
  "on_resume sys close_rejects P =
     (case p_awaiting P of
        None \<Rightarrow> P
      | Some (w, t) \<Rightarrow>
          (case cleanup_resume sys close_rejects w (p_state P) of
             (Some w', s) \<Rightarrow> P\<lparr> p_state := s, p_awaiting := Some (w', t) \<rparr>
           | (None, s) \<Rightarrow> after_cleanup t (P\<lparr> p_state := s, p_awaiting := None \<rparr>)))"

text \<open>
  What happens in the process, one event after the other: a trigger fires or an awaited
  call settles. Nothing happens in a process that has ended.
\<close>

datatype event = Trigger trigger | Resume

definition dispatch :: "os \<Rightarrow> (nat \<Rightarrow> bool) \<Rightarrow> event \<Rightarrow> process \<Rightarrow> process" where
  "dispatch sys close_rejects ev P =
     (if p_over P then P
      else (case ev of
              Trigger t \<Rightarrow> on_trigger t P
            | Resume \<Rightarrow> on_resume sys close_rejects P))"

definition run :: "os \<Rightarrow> (nat \<Rightarrow> bool) \<Rightarrow> event list \<Rightarrow> process \<Rightarrow> process" where
  "run sys close_rejects evs P = fold (dispatch sys close_rejects) evs P"

text \<open>
  The effects that are steps of the body of \<open>cleanup\<close>, the line it prints on entry
  included, and the steps of one whole run of the body from a state, in order.
\<close>

fun body_effect :: "effect \<Rightarrow> bool" where
  "body_effect (ConsoleLog msg) = (msg = CHR 0x0A # ''Shutting down...'')"
| "body_effect (ProcessExit code) = False"
| "body_effect (ProcessKilled sig) = False"
| "body_effect e = True"

definition body_steps :: "server_state \<Rightarrow> effect list" where
  "body_steps s =
     (if idleTimer s then [ClearTimeout] else [])
     @ [ConsoleLog (CHR 0x0A # ''Shutting down...'')]
     @ map SocketDestroy (connections s)
     @ map (\<lambda>(n, e). PageClose (entry_page e)) (registry s)
     @ [BrowserClose, ServerClose, UnregisterServer (server_port s)]"

subsection \<open>Startup\<close>

text \<open>
  The number a port option carries: an integer or \<open>NaN\<close>, which is what \<open>parseInt\<close> gives
  the launcher for a variable without a leading number. Every comparison with \<open>NaN\<close> is
  false, \<open>===\<close> included, and a template literal prints it as \<open>NaN\<close>.
\<close>

datatype number = Num int | NaN

fun num_less :: "number \<Rightarrow> int \<Rightarrow> bool" where
  "num_less (Num a) b = (a < b)"
| "num_less NaN b = False"

fun num_greater :: "number \<Rightarrow> int \<Rightarrow> bool" where
  "num_greater (Num a) b = (a > b)"
| "num_greater NaN b = False"

fun strict_eq :: "number \<Rightarrow> number \<Rightarrow> bool" where
  "strict_eq (Num a) (Num b) = (a = b)"
| "strict_eq a b = False"

fun show_number :: "number \<Rightarrow> string" where
  "show_number (Num a) = show_int a"
| "show_number NaN = ''NaN''"

text \<open>
  The launcher script reads its ports as
  \<open>process.env.PORT ? parseInt(process.env.PORT, 10) : undefined\<close>; an unset variable and
  the empty string are falsy.
\<close>

definition env_port :: "string option \<Rightarrow> number option" where
  "env_port v =
     (case v of
        None \<Rightarrow> None
      | Some s \<Rightarrow>
          (if s = [] then None
           else Some (case parseInt10 s of None \<Rightarrow> NaN | Some i \<Rightarrow> Num i)))"

record ExternalBrowserOptions =
  o_port :: "number option"
  o_cdpPort :: "number option"
  o_browserPath :: "string option"
  o_userDataDir :: "string option"
  o_autoLaunch :: "bool option"
  o_idleTimeout :: "int option"

text \<open>
  What \<open>serveWithExternalBrowser\<close> does to the outside before it returns, in order. The
  answers of the outside are parameters: the bind probe of the port scan, whether the
  browser answers on its CDP port, the endpoint \<open>getCdpEndpoint\<close> obtains (\<open>None\<close> when
  its retries run out), and whether \<open>connectOverCDP\<close> succeeds.
\<close>

datatype startup_effect =
    KillStaleServers
  | ScanPorts
  | ProbeBrowser number
  | LaunchBrowser string number
  | PollEndpoint number
  | ConnectOverCDP number
  | Listen number
  | RegisterServer number
  | WritePortFile number
  | PrintPort number

record startup_env =
  env_bind :: "bind_address \<Rightarrow> int \<Rightarrow> bool"
  env_isBrowserRunning :: "number \<Rightarrow> bool"
  env_getCdpEndpoint :: "number \<Rightarrow> string option"
  env_connectOverCDP :: "number \<Rightarrow> bool"

text \<open>\<open>options.port ?? await findAvailablePort(config)\<close>.\<close>

definition resolve_port ::
  "startup_env \<Rightarrow> portRange \<Rightarrow> ExternalBrowserOptions \<Rightarrow> (string + number) option" where
  "resolve_port env r options =
     (case o_port options of
        Some p \<Rightarrow> Some (Inr p)
      | None \<Rightarrow> map_option (map_sum id Num) (findAvailablePort (env_bind env) r))"

text \<open>\<open>options.cdpPort ?? config.cdpPort\<close>.\<close>

definition resolve_cdpPort :: "int \<Rightarrow> ExternalBrowserOptions \<Rightarrow> number" where
  "resolve_cdpPort config_cdpPort options =
     (case o_cdpPort options of Some c \<Rightarrow> c | None \<Rightarrow> Num config_cdpPort)"

definition invalid_port_message :: "number \<Rightarrow> string" where
  "invalid_port_message p = ''Invalid port: '' @ show_number p @ ''. Must be between 1 and 65535''"

definition invalid_cdpPort_message :: "number \<Rightarrow> string" where
  "invalid_cdpPort_message p = ''Invalid cdpPort: '' @ show_number p @ ''. Must be between 1 and 65535''"

text \<open>
  \<open>app.listen(port)\<close> throws the \<open>RangeError\<close> of \<open>listen\<close> at once for \<open>NaN\<close> and for a number
  outside 0..65535.
\<close>

fun listen_throws :: "number \<Rightarrow> bool" where
  "listen_throws (Num a) = (\<not> valid_port a)"
| "listen_throws NaN = True"

text \<open>
  Everything from the port validation on, for a resolved \<open>port\<close> and \<open>cdpPort\<close>: the
  thrown message or the port the server listens on, and the effects in order.
\<close>

definition start_server ::
  "startup_env \<Rightarrow> ExternalBrowserOptions \<Rightarrow> number \<Rightarrow> number
     \<Rightarrow> (string + number) \<times> startup_effect list" where
  "start_server env options p cdp =
     (if num_less p 1 \<or> num_greater p 65535 then (Inl (invalid_port_message p), [])
      else if num_less cdp 1 \<or> num_greater cdp 65535 then (Inl (invalid_cdpPort_message cdp), [])
      else if strict_eq p cdp then (Inl ''port and cdpPort must be different'', [])
      else
        (let running = env_isBrowserRunning env cdp;
             auto = (case o_autoLaunch options of None \<Rightarrow> True | Some a \<Rightarrow> a);
             path = (case o_browserPath options of None \<Rightarrow> [] | Some b \<Rightarrow> b)
         in if \<not> running \<and> \<not> (auto \<and> path \<noteq> []) then
              (if auto then
                 (Inl (''Browser not running on port '' @ show_number cdp
                        @ '' and no browserPath provided for auto-launch. ''
                        @ ''Either start the browser manually with --remote-debugging-port=''
                        @ show_number cdp @ '' or provide browserPath.''),
                  [ProbeBrowser cdp])
               else
                 (Inl (''Browser not running on port '' @ show_number cdp @ ''. ''
                        @ ''Start it with --remote-debugging-port='' @ show_number cdp),
                  [ProbeBrowser cdp]))
            else
              (let launched = [ProbeBrowser cdp]
                                @ (if \<not> running then [LaunchBrowser path cdp] else [])
                                @ [PollEndpoint cdp]
               in case env_getCdpEndpoint env cdp of
                    None \<Rightarrow>
                      (Inl (''Browser did not start on port '' @ show_number cdp @ '' within 30s''),
                       launched)
                  | Some wsEndpoint \<Rightarrow>
                      (if \<not> env_connectOverCDP env cdp then
                         (Inl ''connectOverCDP failed'', launched @ [ConnectOverCDP cdp])
                       else if listen_throws p then
                         (Inl ''ERR_SOCKET_BAD_PORT'', launched @ [ConnectOverCDP cdp])
                       else
                         (Inr p, launched @ [ConnectOverCDP cdp, Listen p, RegisterServer p,
                                             WritePortFile p, PrintPort p])))))"

text \<open>
  \<open>serveWithExternalBrowser\<close>: \<open>None\<close> is the port scan that never ends; otherwise the
  outcome and the effects, which begin with \<open>killStaleServers()\<close> and, when no port was
  given, the port scan.
\<close>

definition serveWithExternalBrowser ::
  "startup_env \<Rightarrow> portRange \<Rightarrow> int \<Rightarrow> ExternalBrowserOptions
     \<Rightarrow> ((string + number) \<times> startup_effect list) option" where
  "serveWithExternalBrowser env r config_cdpPort options =
     (let before = [KillStaleServers] @ (if o_port options = None then [ScanPorts] else [])
      in case resolve_port env r options of
           None \<Rightarrow> None
         | Some (Inl e) \<Rightarrow> Some (Inl e, before)
         | Some (Inr p) \<Rightarrow>
             (let (res, effs) = start_server env options p (resolve_cdpPort config_cdpPort options)
              in Some (res, before @ effs)))"

text \<open>The effects that touch the browser, the HTTP listener or the registry.\<close>

fun after_validation :: "startup_effect \<Rightarrow> bool" where
  "after_validation KillStaleServers = False"
| "after_validation ScanPorts = False"
| "after_validation e = True"


section \<open>The relay of the extension (background script)\<close>

datatype tab_state = Connecting | Connected | Error

record TabInfo =
  sessionId :: "string option"
  targetId :: "string option"
  state :: tab_state
  errorText :: "string option"

text \<open>
  What \<open>sendMessage\<close> writes to the socket: a log line, a forwarded CDP event
  (\<open>params.sessionId\<close>, \<open>params.method\<close>, \<open>params.params\<close>), or the response to a command
  (\<open>id\<close>, then the error message or the result).
\<close>

datatype message =
    LogMessage string "string list"
  | ForwardCDPEvent "string option" string "jval option"
  | ResponseMessage int "string + jval option"

text \<open>What the script asks of the browser.\<close>

datatype chrome_call =
    DebuggerAttach int
  | DebuggerDetach int
  | DebuggerSendCommand int "string option" string "jval option"
  | TabsCreate string
  | TabsRemove int
  | UpdateIcons

text \<open>
  The module state: the two maps, whether \<open>ws\<close> is a socket whose \<open>readyState\<close> is
  \<open>OPEN\<close>, the session counter, and what has been written to the socket and asked of the
  browser so far.
\<close>

record relay_state =
  tabs :: "(int \<times> TabInfo) list"
  childSessions :: "(jval \<times> int) list"
  ws_open :: bool
  nextSessionId :: nat
  sent :: "message list"
  chrome :: "chrome_call list"

definition sendMessage :: "message \<Rightarrow> relay_state \<Rightarrow> relay_state" where
  "sendMessage m s = (if ws_open s then s\<lparr> sent := sent s @ [m] \<rparr> else s)"

text \<open>\<open>logger.debug\<close> and \<open>logger.log\<close>, with the arguments already turned into strings.\<close>

definition logger_debug :: "string list \<Rightarrow> relay_state \<Rightarrow> relay_state" where
  "logger_debug args s = sendMessage (LogMessage ''debug'' args) s"

definition logger_log :: "string list \<Rightarrow> relay_state \<Rightarrow> relay_state" where
  "logger_log args s = sendMessage (LogMessage ''log'' args) s"

definition updateIcons :: "relay_state \<Rightarrow> relay_state" where
  "updateIcons s = s\<lparr> chrome := chrome s @ [UpdateIcons] \<rparr>"

fun getTabBySessionId :: "(int \<times> TabInfo) list \<Rightarrow> string \<Rightarrow> (int \<times> TabInfo) option" where
  "getTabBySessionId [] sid = None"
| "getTabBySessionId ((tabId, tab) # rest) sid =
     (if sessionId tab = Some sid then Some (tabId, tab) else getTabBySessionId rest sid)"

text \<open>
  \<open>getTabByTargetId\<close> receives \<open>params.targetId\<close> as the message carries it; \<open>===\<close> holds
  only between a string and the same string.
\<close>

fun getTabByTargetId :: "(int \<times> TabInfo) list \<Rightarrow> jval \<Rightarrow> (int \<times> TabInfo) option" where
  "getTabByTargetId [] v = None"
| "getTabByTargetId ((tabId, tab) # rest) v =
     (if (case targetId tab of None \<Rightarrow> False | Some t \<Rightarrow> v = JStr t) then Some (tabId, tab)
      else getTabByTargetId rest v)"

text \<open>The event \<open>Target.detachedFromTarget\<close> both detach paths build from a tab.\<close>

definition opt_field :: "string \<Rightarrow> string option \<Rightarrow> (string \<times> jval) list" where
  "opt_field k v = (case v of None \<Rightarrow> [] | Some x \<Rightarrow> [(k, JStr x)])"

definition detached_event :: "TabInfo \<Rightarrow> message" where
  "detached_event tab =
     ForwardCDPEvent None ''Target.detachedFromTarget''
       (Some (JObj (opt_field ''sessionId'' (sessionId tab) @ opt_field ''targetId'' (targetId tab))))"

text \<open>The loop that deletes every child session whose parent is \<open>tabId\<close>.\<close>

definition drop_children :: "int \<Rightarrow> (jval \<times> int) list \<Rightarrow> (jval \<times> int) list" where
  "drop_children tabId cs = filter (\<lambda>(childSessionId, parentTabId). parentTabId \<noteq> tabId) cs"

definition detachTab :: "int \<Rightarrow> bool \<Rightarrow> relay_state \<Rightarrow> relay_state" where
  "detachTab tabId shouldDetachDebugger s =
     (case map_get (tabs s) tabId of
        None \<Rightarrow> s
      | Some tab \<Rightarrow>
          (let s = logger_debug [''Detaching tab:'', show_int tabId] s;
               s = sendMessage (detached_event tab) s;
               s = s\<lparr> tabs := map_delete (tabs s) tabId \<rparr>;
               s = s\<lparr> childSessions := drop_children tabId (childSessions s) \<rparr>;
               s = (if shouldDetachDebugger
                    then s\<lparr> chrome := chrome s @ [DebuggerDetach tabId] \<rparr> else s)
           in updateIcons s))"

text \<open>\<open>onDebuggerDetach\<close>; \<open>source.tabId\<close> may be undefined.\<close>

definition onDebuggerDetach :: "int option \<Rightarrow> string \<Rightarrow> relay_state \<Rightarrow> relay_state" where
  "onDebuggerDetach source_tabId reason s =
     (case source_tabId of
        None \<Rightarrow> s
      | Some tabId \<Rightarrow>
          (if tabId = 0 \<or> map_get (tabs s) tabId = None then s
           else
             (let s = logger_debug [''Debugger detached for tab '' @ show_int tabId @ '': '' @ reason] s;
                  s = (case map_get (tabs s) tabId of
                         None \<Rightarrow> s
                       | Some tab \<Rightarrow> sendMessage (detached_event tab) s);
                  s = s\<lparr> childSessions := drop_children tabId (childSessions s) \<rparr>;
                  s = s\<lparr> tabs := map_delete (tabs s) tabId \<rparr>
              in updateIcons s)))"

text \<open>The listener of \<open>chrome.tabs.onRemoved\<close>.\<close>

definition onRemoved :: "int \<Rightarrow> relay_state \<Rightarrow> relay_state" where
  "onRemoved tabId s =
     (if map_get (tabs s) tabId \<noteq> None
      then detachTab tabId False (logger_debug [''Tab closed:'', show_int tabId] s)
      else s)"

text \<open>The forwarded CDP events among the messages, without the log lines.\<close>

fun is_event :: "message \<Rightarrow> bool" where
  "is_event (ForwardCDPEvent sid m p) = True"
| "is_event other = False"

definition events :: "relay_state \<Rightarrow> message list" where
  "events s = filter is_event (sent s)"

text \<open>
  The command the relay sends: \<open>{ id, method, params: { sessionId?, method, params? } }\<close>.
\<close>

record command =
  cmd_id :: int
  cmd_method :: string
  cmd_sessionId :: "string option"
  cdp_method :: string
  cdp_params :: "jval option"

text \<open>
  The browser as \<open>handleCommand\<close> and \<open>attachTab\<close> meet it: \<open>chrome.debugger.attach\<close>
  (\<open>Some\<close> is the error it rejects with), \<open>chrome.debugger.sendCommand\<close> (the error or the
  result), the target id and url that \<open>Target.getTargetInfo\<close> reports for a tab,
  \<open>chrome.tabs.create\<close> (the id of the new tab, if it has one) and \<open>chrome.tabs.remove\<close>.
\<close>

record TargetInfo =
  info_targetId :: string
  info_url :: string

record browser =
  debugger_attach :: "int \<Rightarrow> string option"
  debugger_sendCommand :: "int \<Rightarrow> string option \<Rightarrow> string \<Rightarrow> jval option \<Rightarrow> string + jval option"
  getTargetInfo :: "int \<Rightarrow> string + TargetInfo"
  tabs_create :: "string \<Rightarrow> int option"
  tabs_remove :: "int \<Rightarrow> string option"

definition attached_event :: "string \<Rightarrow> TargetInfo \<Rightarrow> message" where
  "attached_event sid info =
     ForwardCDPEvent None ''Target.attachedToTarget''
       (Some (JObj [(''sessionId'', JStr sid),
                    (''targetInfo'', JObj [(''targetId'', JStr (info_targetId info)),
                                           (''url'', JStr (info_url info)),
                                           (''attached'', JBool True)]),
                    (''waitingForDebugger'', JBool False)]))"

definition attachTab :: "browser \<Rightarrow> int \<Rightarrow> relay_state \<Rightarrow> (string + TargetInfo) \<times> relay_state" where
  "attachTab b tabId s =
     (let s = logger_debug [''Attaching debugger to tab:'', show_int tabId] s;
          s = s\<lparr> chrome := chrome s @ [DebuggerAttach tabId] \<rparr>
      in case debugger_attach b tabId of
           Some e \<Rightarrow> (Inl e, s)
         | None \<Rightarrow>
             (let s = s\<lparr> chrome := chrome s
                                  @ [DebuggerSendCommand tabId None ''Target.getTargetInfo'' None] \<rparr>
              in case getTargetInfo b tabId of
                   Inl e \<Rightarrow> (Inl e, s)
                 | Inr targetInfo \<Rightarrow>
                     (let sid = ''pw-tab-'' @ show_nat (nextSessionId s);
                          s = s\<lparr> nextSessionId := Suc (nextSessionId s) \<rparr>;
                          s = s\<lparr> tabs := map_set (tabs s) tabId
                                            \<lparr>sessionId = Some sid,
                                             targetId = Some (info_targetId targetInfo),
                                             state = Connected, errorText = None\<rparr> \<rparr>;
                          s = sendMessage (attached_event sid targetInfo) s;
                          s = logger_log [''Tab attached:'', show_int tabId, ''sessionId:'', sid,
                                          ''url:'', info_url targetInfo] s
                      in (Inr targetInfo, updateIcons s))))"

text \<open>
  The first part of \<open>handleCommand\<close>: the three look-ups that fill \<open>targetTabId\<close> and
  \<open>targetTab\<close>, each tried only while \<open>targetTab\<close> is still undefined.
\<close>

definition by_sessionId :: "command \<Rightarrow> relay_state \<Rightarrow> int option \<times> TabInfo option" where
  "by_sessionId msg s =
     (case cmd_sessionId msg of
        None \<Rightarrow> (None, None)
      | Some sid \<Rightarrow>
          (if sid = [] then (None, None)
           else (case getTabBySessionId (tabs s) sid of
                   None \<Rightarrow> (None, None)
                 | Some (tabId, tab) \<Rightarrow> (Some tabId, Some tab))))"

definition by_childSession ::
  "command \<Rightarrow> int option \<times> TabInfo option \<Rightarrow> relay_state
     \<Rightarrow> (int option \<times> TabInfo option) \<times> relay_state" where
  "by_childSession msg found s =
     (case cmd_sessionId msg of
        None \<Rightarrow> (found, s)
      | Some sid \<Rightarrow>
          (if snd found \<noteq> None \<or> sid = [] then (found, s)
           else (case map_get (childSessions s) (JStr sid) of
                   None \<Rightarrow> (found, s)
                 | Some parentTabId \<Rightarrow>
                     (if parentTabId = 0 then (found, s)
                      else ((Some parentTabId, map_get (tabs s) parentTabId),
                            logger_debug [''Found parent tab for child session:'', sid,
                                          ''tabId:'', show_int parentTabId] s)))))"

definition by_targetId ::
  "command \<Rightarrow> int option \<times> TabInfo option \<Rightarrow> relay_state \<Rightarrow> int option \<times> TabInfo option" where
  "by_targetId msg found s =
     (if snd found \<noteq> None then found
      else (case cdp_params msg of
              Some (JObj kvs) \<Rightarrow>
                (case map_of kvs ''targetId'' of
                   None \<Rightarrow> found
                 | Some v \<Rightarrow>
                     (case getTabByTargetId (tabs s) v of
                        None \<Rightarrow> found
                      | Some (tabId, tab) \<Rightarrow> (Some tabId, Some tab)))
            | _ \<Rightarrow> found))"

definition resolve_target ::
  "command \<Rightarrow> relay_state \<Rightarrow> (int option \<times> TabInfo option) \<times> relay_state" where
  "resolve_target msg s =
     (let found = by_sessionId msg s;
          (found, s) = by_childSession msg found s
      in (by_targetId msg found s, s))"

text \<open>A value inside a template literal, for the values a log line of this script can meet.\<close>

fun show_value :: "jval option \<Rightarrow> string" where
  "show_value None = ''undefined''"
| "show_value (Some JNull) = ''null''"
| "show_value (Some (JBool b)) = (if b then ''true'' else ''false'')"
| "show_value (Some (JNum n)) = show_int n"
| "show_value (Some (JStr t)) = t"
| "show_value (Some (JArr xs)) = ''[array]''"
| "show_value (Some (JObj kvs)) = ''[object Object]''"

definition no_tab_message :: "command \<Rightarrow> string" where
  "no_tab_message msg =
     ''No tab found for method '' @ cdp_method msg @ '' sessionId: '' @ show_opt (cmd_sessionId msg)"

text \<open>
  \<open>handleCommand\<close>: \<open>Inl\<close> is the message of the thrown error, \<open>Inr None\<close> the
  \<open>undefined\<close> of a message that is not a \<open>forwardCDPCommand\<close>, \<open>Inr (Some v)\<close> a result.
\<close>

definition handleCommand ::
  "browser \<Rightarrow> command \<Rightarrow> relay_state \<Rightarrow> (string + jval option) \<times> relay_state" where
  "handleCommand b msg s =
     (if cmd_method msg \<noteq> ''forwardCDPCommand'' then (Inr None, s)
      else
        (let ((targetTabId, targetTab), s) = resolve_target msg s;
             debuggee = (case targetTabId of
                           None \<Rightarrow> None
                         | Some t \<Rightarrow> (if t = 0 then None else Some t))
         in if cdp_method msg = ''Runtime.enable'' then
              (case debuggee of
                 None \<Rightarrow>
                   (Inl (''No debuggee found for Runtime.enable (sessionId: ''
                          @ show_opt (cmd_sessionId msg) @ '')''), s)
               | Some t \<Rightarrow>
                   (debugger_sendCommand b t None ''Runtime.enable'' (cdp_params msg),
                    s\<lparr> chrome := chrome s
                                     @ [DebuggerSendCommand t None ''Runtime.disable'' None,
                                        DebuggerSendCommand t None ''Runtime.enable'' (cdp_params msg)] \<rparr>))
            else if cdp_method msg = ''Target.createTarget'' then
              (let url = (case cdp_params msg of
                            None \<Rightarrow> ''about:blank''
                          | Some ps \<Rightarrow>
                              (if truthy_opt (get_prop ps ''url'')
                               then show_value (get_prop ps ''url'') else ''about:blank''));
                   s = logger_debug [''Creating new tab with URL:'', url] s;
                   s = s\<lparr> chrome := chrome s @ [TabsCreate url] \<rparr>
               in case tabs_create b url of
                    None \<Rightarrow> (Inl ''Failed to create tab'', s)
                  | Some newId \<Rightarrow>
                      (if newId = 0 then (Inl ''Failed to create tab'', s)
                       else (case attachTab b newId s of
                               (Inl e, s) \<Rightarrow> (Inl e, s)
                             | (Inr targetInfo, s) \<Rightarrow>
                                 (Inr (Some (JObj [(''targetId'', JStr (info_targetId targetInfo))])),
                                  s))))
            else if cdp_method msg = ''Target.closeTarget'' then
              (case debuggee of
                 None \<Rightarrow>
                   (Inr (Some (JObj [(''success'', JBool False)])),
                    logger_log [''Target not found: ''
                                  @ show_value (case cdp_params msg of
                                                  None \<Rightarrow> None
                                                | Some ps \<Rightarrow> get_prop ps ''targetId'')] s)
               | Some t \<Rightarrow>
                   (let s = s\<lparr> chrome := chrome s @ [TabsRemove t] \<rparr>
                    in case tabs_remove b t of
                         Some e \<Rightarrow> (Inl e, s)
                       | None \<Rightarrow> (Inr (Some (JObj [(''success'', JBool True)])), s)))
            else
              (case (debuggee, targetTab) of
                 (Some t, Some tab) \<Rightarrow>
                   (let s = logger_debug [''CDP command:'', cdp_method msg, ''for tab:'', show_int t] s;
                        session = (if cmd_sessionId msg \<noteq> sessionId tab
                                   then cmd_sessionId msg else None)
                    in (debugger_sendCommand b t session (cdp_method msg) (cdp_params msg),
                        s\<lparr> chrome := chrome s
                                         @ [DebuggerSendCommand t session (cdp_method msg)
                                              (cdp_params msg)] \<rparr>))
               | _ \<Rightarrow> (Inl (no_tab_message msg), s))))"

text \<open>
  \<open>onDebuggerEvent\<close>: the source of the event is a tab id and, for a child target, a
  session id. The two events about child targets update \<open>childSessions\<close>, keyed by
  whatever \<open>params.sessionId\<close> holds.
\<close>

definition has_sessionId :: "jval option \<Rightarrow> jval option" where
  "has_sessionId params =
     (case params of Some (JObj kvs) \<Rightarrow> map_of kvs ''sessionId'' | _ \<Rightarrow> None)"

definition onDebuggerEvent ::
  "int option \<Rightarrow> string option \<Rightarrow> string \<Rightarrow> jval option \<Rightarrow> relay_state \<Rightarrow> relay_state" where
  "onDebuggerEvent source_tabId source_sessionId method params s =
     (case source_tabId of
        None \<Rightarrow> s
      | Some tabId \<Rightarrow>
          (if tabId = 0 then s
           else (case map_get (tabs s) tabId of
                   None \<Rightarrow> s
                 | Some tab \<Rightarrow>
                     (let s = logger_debug [''Forwarding CDP event:'', method, ''from tab:'',
                                            show_int tabId] s;
                          s = (case (if method = ''Target.attachedToTarget''
                                     then has_sessionId params else None) of
                                 None \<Rightarrow> s
                               | Some k \<Rightarrow>
                                   (let s = logger_debug [''Child target attached:'',
                                                          show_value (Some k), ''for tab:'',
                                                          show_int tabId] s
                                    in s\<lparr> childSessions := map_set (childSessions s) k tabId \<rparr>));
                          s = (case (if method = ''Target.detachedFromTarget''
                                     then has_sessionId params else None) of
                                 None \<Rightarrow> s
                               | Some k \<Rightarrow>
                                   (let s = logger_debug [''Child target detached:'',
                                                          show_value (Some k)] s
                                    in s\<lparr> childSessions := map_delete (childSessions s) k \<rparr>))
                      in sendMessage
                           (ForwardCDPEvent
                              (case source_sessionId of
                                 None \<Rightarrow> sessionId tab
                               | Some c \<Rightarrow> (if c = [] then sessionId tab else Some c))
                              method params) s))))"

text \<open>The \<open>onclose\<close> handler of the socket, up to the restart of the connection loop.\<close>

definition ws_onclose :: "int \<Rightarrow> string \<Rightarrow> relay_state \<Rightarrow> relay_state" where
  "ws_onclose code reason s =
     (let s = logger_debug [''Connection closed:'', show_int code, reason] s;
          s = s\<lparr> chrome := chrome s @ map DebuggerDetach (map_keys (tabs s)) \<rparr>;
          s = s\<lparr> tabs := [], childSessions := [], ws_open := False \<rparr>
      in updateIcons s)"

subsection \<open>The words of the resolution rule\<close>

text \<open>
  A session id that matches no table: the command carries none, or the one it carries is
  the session id of no tab and the key of no child session.
\<close>

definition matches_no_table :: "command \<Rightarrow> relay_state \<Rightarrow> bool" where
  "matches_no_table msg s =
     (case cmd_sessionId msg of
        None \<Rightarrow> True
      | Some sid \<Rightarrow> getTabBySessionId (tabs s) sid = None
                    \<and> map_get (childSessions s) (JStr sid) = None)"

text \<open>
  No target id that resolves: the parameters are not an object with a \<open>targetId\<close>, or no
  tab has that target id.
\<close>

definition no_targetId_match :: "command \<Rightarrow> relay_state \<Rightarrow> bool" where
  "no_targetId_match msg s =
     (case cdp_params msg of
        Some (JObj kvs) \<Rightarrow>
          (case map_of kvs ''targetId'' of
             None \<Rightarrow> True
           | Some v \<Rightarrow> getTabByTargetId (tabs s) v = None)
      | _ \<Rightarrow> True)"

text \<open>The three methods that \<open>handleCommand\<close> treats on their own.\<close>

definition special_method :: "string \<Rightarrow> bool" where
  "special_method m =
     (m = ''Runtime.enable'' \<or> m = ''Target.createTarget'' \<or> m = ''Target.closeTarget'')"


section \<open>Invariants of the server state\<close>

text \<open>
  What the routes maintain: names are distinct, no two names share a page, and the
  observer installed on an open page deletes the name that page is registered under.
\<close>

definition well_formed :: "server_state \<Rightarrow> bool" where
  "well_formed s \<longleftrightarrow>
     distinct (map_keys (registry s))
     \<and> distinct (map (\<lambda>(n, e). entry_page e) (registry s))
     \<and> (\<forall>(p, n) \<in> set (observers s). p \<in> set (open_pages s) \<longrightarrow>
           (\<forall>e. map_get (registry s) n = Some e \<longrightarrow> entry_page e = p))"

text \<open>
  The invariant behind it. Page handles are handed out in increasing order; every
  registered page, every open page and every observed page is older than the next handle;
  and the observer installed on an open page belongs to a name registered with that page.
\<close>

definition server_inv :: "server_state \<Rightarrow> bool" where
  "server_inv s \<longleftrightarrow>
     distinct (map_keys (registry s))
     \<and> distinct (map (\<lambda>(n, e). entry_page e) (registry s))
     \<and> (\<forall>(p, n) \<in> set (observers s). p \<in> set (open_pages s) \<longrightarrow>
           (\<exists>e. map_get (registry s) n = Some e \<and> entry_page e = p))
     \<and> (\<forall>(n, e) \<in> set (registry s). entry_page e < next_page s)
     \<and> (\<forall>p \<in> set (open_pages s). p < next_page s)
     \<and> (\<forall>(p, n) \<in> set (observers s). p < next_page s)"

text \<open>The fields that closing pages does not touch.\<close>

definition untouched :: "server_state \<Rightarrow> server_state \<Rightarrow> bool" where
  "untouched s' s \<longleftrightarrow>
     idleTimer s' = idleTimer s \<and> connections s' = connections s \<and> cleaningUp s' = cleaningUp s
     \<and> browser_connected s' = browser_connected s \<and> listening s' = listening s
     \<and> server_port s' = server_port s \<and> servers s' = servers s"


text \<open>
  The course of one run of the body of \<open>cleanup\<close>, started from the state \<open>s\<close>. \<open>done_steps\<close>
  are the steps of the body among the effects since \<open>s\<close>; \<open>to_come\<close> are the steps still ahead
  of a body that waits; \<open>settled\<close> is the state once \<open>page.close()\<close> has settled, either way.
  A process is on course when the steps done and the steps to come make up the steps of
  the body, the entries still to be visited are registered under pages of their own, and
  after the end of the body or of the process the steps done are an initial part of them.
\<close>

definition done_steps :: "server_state \<Rightarrow> process \<Rightarrow> effect list" where
  "done_steps s P = filter body_effect (drop (length (effects s)) (effects (p_state P)))"

definition observers_ok :: "server_state \<Rightarrow> bool" where
  "observers_ok s \<longleftrightarrow>
     (\<forall>(p, n) \<in> set (observers s). p \<in> set (open_pages s) \<longrightarrow>
        (\<forall>e. map_get (registry s) n = Some e \<longrightarrow> entry_page e = p))"

definition still_registered :: "(string \<times> PageEntry) list \<Rightarrow> server_state \<Rightarrow> bool" where
  "still_registered rest s \<longleftrightarrow> (\<forall>(n, e) \<in> set rest. map_get (registry s) n = Some e)"

definition to_come :: "waiting \<Rightarrow> server_state \<Rightarrow> effect list" where
  "to_come w s =
     (case w of
        PageClosing p rest \<Rightarrow>
          map (\<lambda>(n, e). PageClose (entry_page e)) rest
          @ [BrowserClose, ServerClose, UnregisterServer (server_port s)]
      | BrowserClosing \<Rightarrow> [ServerClose, UnregisterServer (server_port s)])"

definition waiting_ok :: "waiting \<Rightarrow> server_state \<Rightarrow> bool" where
  "waiting_ok w s \<longleftrightarrow>
     (case w of
        PageClosing p rest \<Rightarrow>
          still_registered rest s \<and> distinct (p # map (\<lambda>(n, e). entry_page e) rest)
          \<and> observers_ok s
      | BrowserClosing \<Rightarrow> True)"

definition on_course :: "server_state \<Rightarrow> process \<Rightarrow> bool" where
  "on_course s P \<longleftrightarrow>
     length (effects s) \<le> length (effects (p_state P))
     \<and> (if p_over P then prefix (done_steps s P) (body_steps s)
        else (case p_awaiting P of
                Some (w, t) \<Rightarrow>
                  cleaningUp (p_state P) \<and> waiting_ok w (p_state P)
                  \<and> server_port (p_state P) = server_port s
                  \<and> done_steps s P @ to_come w (p_state P) = body_steps s
              | None \<Rightarrow>
                  (if cleaningUp (p_state P) then prefix (done_steps s P) (body_steps s)
                   else P = serving s)))"

definition settled :: "(nat \<Rightarrow> bool) \<Rightarrow> nat \<Rightarrow> server_state \<Rightarrow> server_state" where
  "settled rej p s = (case page_close rej p s of Inl e \<Rightarrow> s | Inr s1 \<Rightarrow> s1)"


section \<open>Example states\<close>

text \<open>
  A running server with one registered page \<open>a\<close>, an armed idle timer and two open
  sockets.
\<close>

definition ex_server :: server_state where
  "ex_server = \<lparr> registry = [(''a'', \<lparr>entry_page = 0, entry_targetId = ''T0''\<rparr>)],
      observers = [(0, ''a'')], open_pages = [0], next_page = 1, idleTimer = True,
      connections = [7, 8], cleaningUp = False, browser_connected = True, listening = True,
      server_port = 19222, servers = Missing, effects = [] \<rparr>"

text \<open>
  A server that has just started, and what it is after registering a page named \<open>100%\<close>
  or \<open>x%41\<close>.
\<close>

definition ex_started :: server_state where
  "ex_started = \<lparr> registry = [], observers = [], open_pages = [], next_page = 0,
      idleTimer = True, connections = [], cleaningUp = False, browser_connected = True,
      listening = True, server_port = 19222, servers = Missing, effects = [] \<rparr>"

definition ex_percent :: server_state where
  "ex_percent = ex_started\<lparr> registry := [(''100%'', \<lparr>entry_page = 0, entry_targetId = ''T0''\<rparr>)],
      observers := [(0, ''100%'')], open_pages := [0], next_page := 1 \<rparr>"

definition ex_escaped :: server_state where
  "ex_escaped = ex_started\<lparr> registry := [(''x%41'', \<lparr>entry_page = 0, entry_targetId = ''T0''\<rparr>)],
      observers := [(0, ''x%41'')], open_pages := [0], next_page := 1 \<rparr>"

text \<open>
  Two answers of the operating system to the bind probes: one where port 19222 is taken
  on the default address and 19224 on the IPv4 wildcard, one where every bind fails.
\<close>

definition ex_bind :: "bind_address \<Rightarrow> int \<Rightarrow> bool" where
  "ex_bind a p = (if a = DefaultAddress then p \<noteq> 19222 else p \<noteq> 19224)"

definition ex_busy :: "bind_address \<Rightarrow> int \<Rightarrow> bool" where
  "ex_busy a p = False"

text \<open>
  An operating system in which only pid 100 exists, \<open>lsof\<close> reports pid 4242 on port
  9223 and pid 777 on port 9225, and a registry file with a live server (pid 100, CDP
  port 9225) under key 19222 and a dead one (pid 200, CDP port 9223) under key 19224.
\<close>

definition ex_os :: os where
  "ex_os = \<lparr> processExists = (\<lambda>p. p = 100),
             lsof = (\<lambda>port. if port = 9223 then Some (''4242'' @ [CHR 0x0A]) else if port = 9225 then Some ''777'' else None),
             now = ''2026-01-01T00:00:00.000Z'',
             getTime = (\<lambda>t. Some 1) \<rparr>"

definition ex_live :: ServerInfo where
  "ex_live = \<lparr>pid = 100, cdpPort = Some 9225, browserPid = None, mode = External,
              startedAt = ''2025-12-31T00:00:00.000Z''\<rparr>"

definition ex_dead :: ServerInfo where
  "ex_dead = \<lparr>pid = 200, cdpPort = Some 9223, browserPid = None, mode = External,
              startedAt = ''2025-12-30T00:00:00.000Z''\<rparr>"

definition ex_file :: servers_file where
  "ex_file = Content [(''19222'', Info ex_live), (''19224'', Info ex_dead)]"

text \<open>The server of the first example, with its own entry, a stale one and another live one in the registry file.\<close>

definition ex_shared :: server_state where
  "ex_shared = ex_server\<lparr> servers := Content [(''19222'', Info ex_live), (''19224'', Info ex_dead),
                                                (''19230'', Info ex_live)] \<rparr>"

text \<open>
  Start-up options that ask for port 0; an outside in which the browser answers, and one
  in which nothing answers on the CDP port.
\<close>

definition ex_opts :: ExternalBrowserOptions where
  "ex_opts = \<lparr> o_port = Some (Num 0), o_cdpPort = None, o_browserPath = None, o_userDataDir = None,
               o_autoLaunch = None, o_idleTimeout = None \<rparr>"

definition ex_env :: startup_env where
  "ex_env = \<lparr> env_bind = ex_bind, env_isBrowserRunning = (\<lambda>p. True),
              env_getCdpEndpoint = (\<lambda>p. Some ''ws://127.0.0.1:9223/devtools/browser/x''),
              env_connectOverCDP = (\<lambda>p. True) \<rparr>"

definition ex_silent :: startup_env where
  "ex_silent = \<lparr> env_bind = ex_bind, env_isBrowserRunning = (\<lambda>p. False),
                 env_getCdpEndpoint = (\<lambda>p. None), env_connectOverCDP = (\<lambda>p. False) \<rparr>"

definition ex_range :: portRange where
  "ex_range = \<lparr>range_start = 19222, range_end = 19228, range_step = 2\<rparr>"

text \<open>
  A relay with two attached tabs, 5 and 6, each with one child session, and a connected
  socket; a command for \<open>Page.navigate\<close>; a browser that answers every command.
\<close>

definition ex_tab5 :: TabInfo where
  "ex_tab5 = \<lparr>sessionId = Some ''pw-tab-1'', targetId = Some ''T5'', state = Connected,
              errorText = None\<rparr>"

definition ex_tab6 :: TabInfo where
  "ex_tab6 = \<lparr>sessionId = Some ''pw-tab-2'', targetId = Some ''T6'', state = Connected,
              errorText = None\<rparr>"

definition ex_relay :: relay_state where
  "ex_relay = \<lparr> tabs = [(5, ex_tab5), (6, ex_tab6)],
                childSessions = [(JStr ''child-1'', 5), (JStr ''child-2'', 6)],
                ws_open = True, nextSessionId = 3, sent = [], chrome = [] \<rparr>"

definition ex_cmd :: "string option \<Rightarrow> jval option \<Rightarrow> command" where
  "ex_cmd sid ps = \<lparr>cmd_id = 1, cmd_method = ''forwardCDPCommand'', cmd_sessionId = sid,
                    cdp_method = ''Page.navigate'', cdp_params = ps\<rparr>"

definition ex_browser :: browser where
  "ex_browser = \<lparr> debugger_attach = (\<lambda>t. None),
                  debugger_sendCommand = (\<lambda>t sid m ps. Inr (Some (JObj []))),
                  getTargetInfo = (\<lambda>t. Inr \<lparr>info_targetId = ''T'', info_url = ''about:blank''\<rparr>),
                  tabs_create = (\<lambda>u. Some 9),
                  tabs_remove = (\<lambda>t. None) \<rparr>"


section \<open>Facts about the maps\<close>

lemma map_get_map_set_same: "map_get (map_set m k v) k = Some v"
  by (induction m) auto

lemma map_get_map_delete_same: "map_get (map_delete m k) k = None"
  by (induction m) (auto simp: map_delete_def)

lemma map_get_None_iff: "map_get m k = None \<longleftrightarrow> k \<notin> set (map_keys m)"
  by (induction m k rule: map_get.induct) (simp_all add: map_keys_def)

lemma set_map_set_other:
  "k' \<noteq> k \<Longrightarrow> (k', v') \<in> set (map_set m k v) \<longleftrightarrow> (k', v') \<in> set m"
  by (induction m) (auto split: if_splits)

lemma map_get_map_delete: "map_get (map_delete m k) k' = (if k' = k then None else map_get m k')"
  by (induction m) (auto simp: map_delete_def)

lemma map_get_fold_delete:
  "map_get (fold (\<lambda>(q, n) r. if q = p then map_delete r n else r) obs reg) k
     = (if (p, k) \<in> set obs then None else map_get reg k)"
proof (induction obs arbitrary: reg)
  case Nil
  then show ?case by simp
next
  case (Cons a obs)
  obtain q n where a: "a = (q, n)" by (cases a)
  show ?case
    using a by (simp add: Cons.IH map_get_map_delete)
qed

lemma map_get_distinct:
  "distinct (map_keys m) \<Longrightarrow> (k, v) \<in> set m \<Longrightarrow> map_get m k = Some v"
  by (induction m) (auto simp: map_keys_def rev_image_eqI)


section \<open>The page routes\<close>

lemma open_pages_on_close: "p \<notin> set (open_pages (on_close p s))"
  by (simp add: on_close_def)

lemma page_close_closed: "page_close rej p s = Inr s' \<Longrightarrow> p \<notin> set (open_pages s')"
  by (auto simp: page_close_def open_pages_on_close split: if_splits)

text \<open>
  Claim C8. A \<open>POST /pages\<close> body whose \<open>name\<close> is missing, is not a string, is the empty
  string, or has 257 or more characters is answered with status 400 and an explanatory
  error, and the server state (the registry with it) stays as it was. A name of exactly
  256 characters passes the validation: the request is answered with status 200, from
  the stored entry when the name is registered, and with the new entry stored when the
  page is created.
\<close>

theorem post_pages_name_validity:
  "(get_prop b ''name'' = None \<longrightarrow>
      post_pages outcome b s =
        (Inr \<lparr>status = 400, payload = ErrorBody ''name is required and must be a string''\<rparr>, s))
 \<and> (get_prop b ''name'' = Some v \<and> \<not> is_string (Some v) \<longrightarrow>
      post_pages outcome b s =
        (Inr \<lparr>status = 400, payload = ErrorBody ''name is required and must be a string''\<rparr>, s))
 \<and> (get_prop b ''name'' = Some (JStr []) \<longrightarrow>
      post_pages outcome b s =
        (Inr \<lparr>status = 400, payload = ErrorBody ''name is required and must be a string''\<rparr>, s))
 \<and> (get_prop b ''name'' = Some (JStr n) \<and> 257 \<le> length n \<longrightarrow>
      post_pages outcome b s =
        (Inr \<lparr>status = 400, payload = ErrorBody ''name must be 256 characters or less''\<rparr>, s))
 \<and> (get_prop b ''name'' = Some (JStr n) \<and> length n = 256 \<longrightarrow>
      validate_name (Some (JStr n)) = Inr n
      \<and> (\<forall>e. map_get (registry s) n = Some e \<longrightarrow>
            post_pages outcome b s =
              (Inr \<lparr>status = 200, payload = PageBody n (entry_targetId e) ''launch''\<rparr>, s))
      \<and> (\<forall>tid. map_get (registry s) n = None \<and> outcome = Created tid \<longrightarrow>
            fst (post_pages outcome b s) = Inr \<lparr>status = 200, payload = PageBody n tid ''launch''\<rparr>
            \<and> map_get (registry (snd (post_pages outcome b s))) n
                = Some \<lparr>entry_page = next_page s, entry_targetId = tid\<rparr>))"
  by (cases v) (auto simp: post_pages_def validate_name_def bad_request_def map_get_map_set_same)

theorem post_pages_name_validity_witness:
  "post_pages NewPageTimeout (JObj []) ex_server =
     (Inr \<lparr>status = 400, payload = ErrorBody ''name is required and must be a string''\<rparr>, ex_server)
 \<and> post_pages NewPageTimeout (JObj [(''name'', JNum 5)]) ex_server =
     (Inr \<lparr>status = 400, payload = ErrorBody ''name is required and must be a string''\<rparr>, ex_server)
 \<and> post_pages NewPageTimeout (JObj [(''name'', JStr [])]) ex_server =
     (Inr \<lparr>status = 400, payload = ErrorBody ''name is required and must be a string''\<rparr>, ex_server)
 \<and> post_pages NewPageTimeout (JObj [(''name'', JStr (replicate 257 CHR ''x''))]) ex_server =
     (Inr \<lparr>status = 400, payload = ErrorBody ''name must be 256 characters or less''\<rparr>, ex_server)
 \<and> fst (post_pages (Created ''T1'') (JObj [(''name'', JStr (replicate 256 CHR ''x''))]) ex_server) =
     Inr \<lparr>status = 200, payload = PageBody (replicate 256 CHR ''x'') ''T1'' ''launch''\<rparr>"
proof -
  have neq: "replicate 256 CHR ''x'' \<noteq> ''a''"
  proof
    assume "replicate 256 CHR ''x'' = ''a''"
    then have "length (replicate 256 CHR ''x'') = length ''a''" by simp
    then show False by simp
  qed
  have r: "map_get (registry ex_server) (replicate 256 CHR ''x'') = None"
    using neq by (simp add: ex_server_def)
  show ?thesis
    using post_pages_name_validity [of "JObj []" NewPageTimeout ex_server "JNull" "[]"]
      post_pages_name_validity [of "JObj [(''name'', JNum 5)]" NewPageTimeout ex_server "JNum 5" "[]"]
      post_pages_name_validity [of "JObj [(''name'', JStr [])]" NewPageTimeout ex_server "JNull" "[]"]
      post_pages_name_validity [of "JObj [(''name'', JStr (replicate 257 CHR ''x''))]"
        NewPageTimeout ex_server "JNull" "replicate 257 CHR ''x''"]
      post_pages_name_validity [of "JObj [(''name'', JStr (replicate 256 CHR ''x''))]"
        "Created ''T1''" ex_server "JNull" "replicate 256 CHR ''x''"]
      r
    by simp
qed

text \<open>
  Claim C2. For a valid page name that already has an entry in the registry,
  \<open>POST /pages\<close> answers with the target id of the stored entry, creates no page and
  leaves the state unchanged. Hence when one call has answered with a target id, the next
  call with the same body answers with the same target id, whatever page creation would
  have come to, and the registry keeps its size.
\<close>

theorem post_pages_idempotent:
  "(validate_name (get_prop b ''name'') = Inr n \<and> map_get (registry s) n = Some e \<longrightarrow>
      post_pages outcome b s =
        (Inr \<lparr>status = 200, payload = PageBody n (entry_targetId e) ''launch''\<rparr>, s))
 \<and> (post_pages outcome b s = (Inr \<lparr>status = 200, payload = PageBody n tid m\<rparr>, s1) \<longrightarrow>
      post_pages outcome2 b s1 = (Inr \<lparr>status = 200, payload = PageBody n tid m\<rparr>, s1)
      \<and> length (registry (snd (post_pages outcome2 b s1))) = length (registry s1))"
proof (intro conjI impI)
  assume "validate_name (get_prop b ''name'') = Inr n \<and> map_get (registry s) n = Some e"
  then show "post_pages outcome b s =
        (Inr \<lparr>status = 200, payload = PageBody n (entry_targetId e) ''launch''\<rparr>, s)"
    by (simp add: post_pages_def)
next
  assume first: "post_pages outcome b s = (Inr \<lparr>status = 200, payload = PageBody n tid m\<rparr>, s1)"
  have bad: "\<And>x. validate_name (get_prop b ''name'') = Inl x \<Longrightarrow> status x = 400"
    by (auto simp: validate_name_def bad_request_def split: if_splits option.splits jval.splits)
  from first obtain n' where v: "validate_name (get_prop b ''name'') = Inr n'"
    using bad by (cases "validate_name (get_prop b ''name'')") (auto simp: post_pages_def)
  from first v have stored: "n' = n \<and> m = ''launch'' \<and> (\<exists>e. map_get (registry s1) n = Some e \<and> entry_targetId e = tid)"
    by (auto simp: post_pages_def map_get_map_set_same split: option.splits creation.splits)
  then obtain e where e: "map_get (registry s1) n = Some e" "entry_targetId e = tid" by blast
  have second: "post_pages outcome2 b s1 = (Inr \<lparr>status = 200, payload = PageBody n tid m\<rparr>, s1)"
    using v stored e by (simp add: post_pages_def)
  show "post_pages outcome2 b s1 = (Inr \<lparr>status = 200, payload = PageBody n tid m\<rparr>, s1)"
    by (rule second)
  show "length (registry (snd (post_pages outcome2 b s1))) = length (registry s1)"
    by (simp add: second)
qed

theorem post_pages_idempotent_witness:
  "post_pages NewPageTimeout (JObj [(''name'', JStr ''a'')]) ex_server
     = (Inr \<lparr>status = 200, payload = PageBody ''a'' ''T0'' ''launch''\<rparr>, ex_server)
   \<and> post_pages (Created ''T9'') (JObj [(''name'', JStr ''a'')]) ex_server
     = (Inr \<lparr>status = 200, payload = PageBody ''a'' ''T0'' ''launch''\<rparr>, ex_server)
   \<and> length (registry (snd (post_pages (Created ''T9'') (JObj [(''name'', JStr ''a'')]) ex_server))) = 1"
proof -
  have v: "validate_name (get_prop (JObj [(''name'', JStr ''a'')]) ''name'') = Inr ''a''"
    by (simp add: validate_name_def)
  have g: "map_get (registry ex_server) ''a'' = Some \<lparr>entry_page = 0, entry_targetId = ''T0''\<rparr>"
    by (simp add: ex_server_def)
  have l: "length (registry ex_server) = 1"
    by (simp add: ex_server_def)
  have first: "post_pages NewPageTimeout (JObj [(''name'', JStr ''a'')]) ex_server
     = (Inr \<lparr>status = 200, payload = PageBody ''a'' ''T0'' ''launch''\<rparr>, ex_server)"
    using post_pages_idempotent [of "JObj [(''name'', JStr ''a'')]" "''a''" ex_server
        "\<lparr>entry_page = 0, entry_targetId = ''T0''\<rparr>" NewPageTimeout] v g by simp
  show ?thesis
    using first l post_pages_idempotent [of "JObj [(''name'', JStr ''a'')]" "''a''" ex_server
        "\<lparr>entry_page = 0, entry_targetId = ''T0''\<rparr>" NewPageTimeout "''T0''" "''launch''" ex_server "Created ''T9''"]
    by simp
qed

lemma decodeURIComponent_plain: "CHR ''%'' \<notin> set raw \<Longrightarrow> decodeURIComponent raw = Some raw"
  by (induction raw) auto

text \<open>
  \<open>DELETE /pages/:name\<close> where decoding succeeds and closing the page does not reject: when
  the decoded name is registered the page is closed, the name leaves the registry and the
  answer is \<open>{ success: true }\<close>; then \<open>GET /pages\<close> does not list the name and a second
  \<open>DELETE\<close> of it is answered 404 \<open>page not found\<close>. When the decoded name is not registered
  the answer is 404 \<open>page not found\<close> and nothing changes.
\<close>

lemma delete_page_decoded:
  "decodeURIComponent raw = Some name \<longrightarrow>
     (\<forall>entry. map_get (registry s) name = Some entry \<and> \<not> close_rejects (entry_page entry) \<longrightarrow>
        fst (delete_page close_rejects raw s)
          = Inr \<lparr>status = 200, payload = SuccessBody True\<rparr>
        \<and> entry_page entry \<notin> set (open_pages (snd (delete_page close_rejects raw s)))
        \<and> map_get (registry (snd (delete_page close_rejects raw s))) name = None
        \<and> (\<exists>names. get_pages (snd (delete_page close_rejects raw s))
                      = \<lparr>status = 200, payload = PagesBody names\<rparr> \<and> name \<notin> set names)
        \<and> fst (delete_page close_rejects raw
                 (snd (delete_page close_rejects raw s)))
            = Inr \<lparr>status = 404, payload = ErrorBody ''page not found''\<rparr>)
   \<and> (map_get (registry s) name = None \<longrightarrow>
        delete_page close_rejects raw s
          = (Inr \<lparr>status = 404, payload = ErrorBody ''page not found''\<rparr>, s))"
proof (intro impI conjI allI)
  fix entry
  assume d: "decodeURIComponent raw = Some name"
    and e: "map_get (registry s) name = Some entry \<and> \<not> close_rejects (entry_page entry)"
  then obtain s1 where c: "page_close close_rejects (entry_page entry) s = Inr s1"
    by (simp add: page_close_def)
  let ?s' = "s1\<lparr> registry := map_delete (registry s1) name \<rparr>"
  have res: "delete_page close_rejects raw s
               = (Inr \<lparr>status = 200, payload = SuccessBody True\<rparr>, ?s')"
    using d e c by (simp add: delete_page_def)
  have gone: "map_get (registry ?s') name = None"
    by (simp add: map_get_map_delete_same)
  show "fst (delete_page close_rejects raw s)
          = Inr \<lparr>status = 200, payload = SuccessBody True\<rparr>"
    by (simp add: res)
  show "entry_page entry \<notin> set (open_pages (snd (delete_page close_rejects raw s)))"
    using page_close_closed [OF c] by (simp add: res)
  show "map_get (registry (snd (delete_page close_rejects raw s))) name = None"
    using gone by (simp add: res)
  show "\<exists>names. get_pages (snd (delete_page close_rejects raw s))
                      = \<lparr>status = 200, payload = PagesBody names\<rparr> \<and> name \<notin> set names"
    using gone by (simp add: res get_pages_def map_get_None_iff)
  show "fst (delete_page close_rejects raw
                 (snd (delete_page close_rejects raw s)))
            = Inr \<lparr>status = 404, payload = ErrorBody ''page not found''\<rparr>"
  proof -
    have "delete_page close_rejects raw ?s'
            = (Inr \<lparr>status = 404, payload = ErrorBody ''page not found''\<rparr>, ?s')"
      using gone d by (simp add: delete_page_def)
    then show ?thesis by (simp add: res)
  qed
next
  assume "decodeURIComponent raw = Some name" "map_get (registry s) name = None"
  then show "delete_page close_rejects raw s
          = (Inr \<lparr>status = 404, payload = ErrorBody ''page not found''\<rparr>, s)"
    by (simp add: delete_page_def)
qed

lemma delete_page_decoded_ex:
  "fst (delete_page (\<lambda>p. False) ''a'' ex_server)
     = Inr \<lparr>status = 200, payload = SuccessBody True\<rparr>
   \<and> fst (delete_page (\<lambda>p. False) ''a''
            (snd (delete_page (\<lambda>p. False) ''a'' ex_server)))
     = Inr \<lparr>status = 404, payload = ErrorBody ''page not found''\<rparr>
   \<and> delete_page (\<lambda>p. False) ''b'' ex_server
     = (Inr \<lparr>status = 404, payload = ErrorBody ''page not found''\<rparr>, ex_server)"
proof -
  have g: "map_get (registry ex_server) ''a'' = Some \<lparr>entry_page = 0, entry_targetId = ''T0''\<rparr>"
    by (simp add: ex_server_def)
  have h: "map_get (registry ex_server) ''b'' = None"
    by (simp add: ex_server_def)
  show ?thesis
    using g h
      delete_page_decoded [of "''a''" "''a''" ex_server "\<lambda>p. False"]
      delete_page_decoded [of "''b''" "''b''" ex_server "\<lambda>p. False"]
    by simp
qed

text \<open>
  Claim C9. For every name, \<open>DELETE /pages/:name\<close> answers \<open>{ success: true }\<close> when the name
  is registered and 404 \<open>page not found\<close> when it is not. The handler does neither for a
  registered name that contains \<open>%\<close>: \<open>POST /pages\<close> registers the name \<open>100%\<close> and \<open>GET /pages\<close>
  lists it, and on the parameter \<open>100%\<close> the handler's \<open>decodeURIComponent\<close> throws a
  \<open>URIError\<close>, no response is written and the page stays registered; the registered name
  \<open>x%41\<close> is decoded to \<open>xA\<close> and answered 404 \<open>page not found\<close>, the page staying open and
  listed.
\<close>

theorem delete_page_outcomes:
  "post_pages (Created ''T0'') (JObj [(''name'', JStr ''100%'')]) ex_started
     = (Inr \<lparr>status = 200, payload = PageBody ''100%'' ''T0'' ''launch''\<rparr>, ex_percent)
   \<and> get_pages ex_percent = \<lparr>status = 200, payload = PagesBody [''100%'']\<rparr>
   \<and> delete_page (\<lambda>p. False) ''100%'' ex_percent = (Inl ''URIError: URI malformed'', ex_percent)
   \<and> post_pages (Created ''T0'') (JObj [(''name'', JStr ''x%41'')]) ex_started
     = (Inr \<lparr>status = 200, payload = PageBody ''x%41'' ''T0'' ''launch''\<rparr>, ex_escaped)
   \<and> get_pages ex_escaped = \<lparr>status = 200, payload = PagesBody [''x%41'']\<rparr>
   \<and> delete_page (\<lambda>p. False) ''x%41'' ex_escaped
     = (Inr \<lparr>status = 404, payload = ErrorBody ''page not found''\<rparr>, ex_escaped)"
proof -
  have d1: "decodeURIComponent ''100%'' = None"
    by (simp add: escape_byte_def)
  have c: "char_of (65::nat) = CHR ''A''"
    by code_simp
  have d2: "decodeURIComponent ''x%41'' = Some ''xA''"
    by (simp add: escape_byte_def hex_val_def octet_count_def c)
  have p1: "post_pages (Created ''T0'') (JObj [(''name'', JStr ''100%'')]) ex_started
     = (Inr \<lparr>status = 200, payload = PageBody ''100%'' ''T0'' ''launch''\<rparr>, ex_percent)"
    by (simp add: post_pages_def validate_name_def ex_started_def ex_percent_def)
  have p2: "post_pages (Created ''T0'') (JObj [(''name'', JStr ''x%41'')]) ex_started
     = (Inr \<lparr>status = 200, payload = PageBody ''x%41'' ''T0'' ''launch''\<rparr>, ex_escaped)"
    by (simp add: post_pages_def validate_name_def ex_started_def ex_escaped_def)
  have g1: "get_pages ex_percent = \<lparr>status = 200, payload = PagesBody [''100%'']\<rparr>"
    by (simp add: get_pages_def map_keys_def ex_percent_def)
  have g2: "get_pages ex_escaped = \<lparr>status = 200, payload = PagesBody [''x%41'']\<rparr>"
    by (simp add: get_pages_def map_keys_def ex_escaped_def)
  have e1: "delete_page (\<lambda>p. False) ''100%'' ex_percent = (Inl ''URIError: URI malformed'', ex_percent)"
    by (simp add: delete_page_def d1 del: decodeURIComponent.simps)
  have e2: "delete_page (\<lambda>p. False) ''x%41'' ex_escaped
     = (Inr \<lparr>status = 404, payload = ErrorBody ''page not found''\<rparr>, ex_escaped)"
    by (simp add: delete_page_def d2 ex_escaped_def del: decodeURIComponent.simps)
  show ?thesis
    by (rule conjI [OF p1 conjI [OF g1 conjI [OF e1 conjI [OF p2 conjI [OF g2 e2]]]]])
qed

section \<open>Port allocation\<close>

lemma findAvailablePort_loop_find:
  "0 < step \<Longrightarrow>
   findAvailablePort_loop bind e step p =
     Some (case List.find (\<lambda>q. \<not> valid_port q \<or> (bind DefaultAddress q \<and> bind IPv4Wildcard q))
                   (candidates e step p) of
             None \<Rightarrow> Inr None
           | Some q \<Rightarrow> (if valid_port q then Inr (Some q) else Inl ''ERR_SOCKET_BAD_PORT''))"
proof (induction e step p rule: candidates.induct)
  case (1 e step p)
  show ?case
  proof (cases "p < e")
    case True
    with 1 show ?thesis
      by (subst findAvailablePort_loop.simps, subst candidates.simps)
         (auto simp: isPortAvailable_def)
  next
    case False
    with 1 show ?thesis
      by (subst findAvailablePort_loop.simps, subst candidates.simps) simp
  qed
qed

lemma candidates_below_end:
  "set (candidates e step p) \<subseteq> set (candidates (e + 1) step p)"
proof (induction e step p rule: candidates.induct)
  case (1 e step p)
  show ?case
  proof (cases "0 < step \<and> p < e")
    case True
    with 1 show ?thesis
      by (subst candidates.simps, subst (2) candidates.simps) auto
  next
    case False
    then have "candidates e step p = []" by (subst candidates.simps) simp
    then show ?thesis by simp
  qed
qed

lemma findAvailablePort_loop_stuck:
  assumes "findAvailablePort_loop bind e step port = Some y"
  shows "\<not> (step = 0 \<and> port < e \<and> isPortAvailable bind port = Inr False)"
proof (rule findAvailablePort_loop.raw_induct
         [where P = "\<lambda>b e' st p y'. \<not> (st = 0 \<and> p < e' \<and> isPortAvailable b p = Inr False)",
          OF _ assms])
  fix f b e' st p y'
  assume ih: "\<And>b e' st p y'. f b e' st p = Some y'
                 \<Longrightarrow> \<not> (st = 0 \<and> p < e' \<and> isPortAvailable b p = Inr False)"
    and step: "(if p < e' then
                  (case isPortAvailable b p of
                     Inl e \<Rightarrow> Some (Inl e)
                   | Inr available \<Rightarrow>
                       (if available then Some (Inr (Some p)) else f b e' st (p + st)))
                else Some (Inr None)) = Some y'"
  show "\<not> (st = 0 \<and> p < e' \<and> isPortAvailable b p = Inr False)"
  proof
    assume a: "st = 0 \<and> p < e' \<and> isPortAvailable b p = Inr False"
    with step have "f b e' st p = Some y'" by simp
    with ih a show False by blast
  qed
qed

lemma candidates_ex: "candidates 19228 2 19222 = [19222, 19224, 19226]"
  by (simp add: candidates.simps)

lemma show_ex: "show_int 19222 = ''19222'' \<and> show_int 19228 = ''19228'' \<and> show_int 2 = ''2''"
  by (simp add: show_int_def show_nat.simps digit_char_def)

text \<open>
  Claim C7, as amended. For a port range with a positive step, \<open>findAvailablePort\<close>
  probes the ports \<open>start\<close>, \<open>start + step\<close>, ... below \<open>end\<close> in this order, each by binding
  the default address and then the IPv4 wildcard address. It returns the first probed
  port on which both binds succeed; a probed port outside 0..65535 met before that makes
  it throw the error of \<open>listen\<close>. When none of \<open>start\<close>, \<open>start + step\<close>, ... up to and
  including \<open>end\<close> is free, all of them being valid ports, it throws the exhaustion error,
  whose message names the range \<open>start-end\<close> and the step.
\<close>

theorem findAvailablePort_first_free:
  "0 < range_step r \<longrightarrow>
     (List.find (\<lambda>q. \<not> valid_port q \<or> (bind DefaultAddress q \<and> bind IPv4Wildcard q))
         (candidates (range_end r) (range_step r) (range_start r)) = Some p \<and> valid_port p
        \<longrightarrow> findAvailablePort bind r = Some (Inr p))
   \<and> (List.find (\<lambda>q. \<not> valid_port q \<or> (bind DefaultAddress q \<and> bind IPv4Wildcard q))
         (candidates (range_end r) (range_step r) (range_start r)) = Some p \<and> \<not> valid_port p
        \<longrightarrow> findAvailablePort bind r = Some (Inl ''ERR_SOCKET_BAD_PORT''))
   \<and> ((\<forall>q \<in> set (candidates (range_end r + 1) (range_step r) (range_start r)).
          valid_port q \<and> \<not> (bind DefaultAddress q \<and> bind IPv4Wildcard q))
        \<longrightarrow> findAvailablePort bind r =
              Some (Inl (''No available ports in range '' @ show_int (range_start r) @ ''-''
                          @ show_int (range_end r) @ '' (step '' @ show_int (range_step r) @ ''). ''
                          @ ''Too many dev-browser servers may be running. ''
                          @ ''Check ~/.dev-browser/active-servers.json for active servers.'')))"
proof (intro impI conjI)
  assume st: "0 < range_step r"
  let ?cs = "candidates (range_end r) (range_step r) (range_start r)"
  let ?stops = "\<lambda>q. \<not> valid_port q \<or> (bind DefaultAddress q \<and> bind IPv4Wildcard q)"
  note loop = findAvailablePort_loop_find [OF st, of bind "range_end r" "range_start r"]
  {
    assume "List.find ?stops ?cs = Some p \<and> valid_port p"
    then show "findAvailablePort bind r = Some (Inr p)"
      by (simp add: findAvailablePort_def loop)
  }
  {
    assume "List.find ?stops ?cs = Some p \<and> \<not> valid_port p"
    then show "findAvailablePort bind r = Some (Inl ''ERR_SOCKET_BAD_PORT'')"
      by (simp add: findAvailablePort_def loop)
  }
  {
    assume none: "\<forall>q \<in> set (candidates (range_end r + 1) (range_step r) (range_start r)).
                    valid_port q \<and> \<not> (bind DefaultAddress q \<and> bind IPv4Wildcard q)"
    have "\<forall>q \<in> set ?cs. \<not> ?stops q"
      using none candidates_below_end [of "range_end r" "range_step r" "range_start r"] by blast
    then have "List.find ?stops ?cs = None"
      by (simp add: find_None_iff)
    then show "findAvailablePort bind r =
              Some (Inl (''No available ports in range '' @ show_int (range_start r) @ ''-''
                          @ show_int (range_end r) @ '' (step '' @ show_int (range_step r) @ ''). ''
                          @ ''Too many dev-browser servers may be running. ''
                          @ ''Check ~/.dev-browser/active-servers.json for active servers.''))"
      by (simp add: findAvailablePort_def loop exhausted_message_def)
  }
qed

text \<open>
  The claim C7 as stated fails: nothing bounds the step, and with step 0 and a first port
  that is taken the scan neither returns a port nor throws the exhaustion error.
\<close>

theorem findAvailablePort_first_free_counterexample:
  "findAvailablePort ex_busy \<lparr>range_start = 19222, range_end = 19228, range_step = 0\<rparr> = None"
proof (cases "findAvailablePort_loop ex_busy 19228 0 19222")
  case None
  then show ?thesis by (simp add: findAvailablePort_def)
next
  case (Some y)
  from findAvailablePort_loop_stuck [OF Some] show ?thesis
    by (simp add: isPortAvailable_def valid_port_def ex_busy_def)
qed

lemma candidates_incl_ex: "candidates 19229 2 19222 = [19222, 19224, 19226, 19228]"
  by (simp add: candidates.simps)

lemma candidates_high_ex: "candidates 65540 2 65534 = [65534, 65536, 65538]"
  by (simp add: candidates.simps)

theorem findAvailablePort_first_free_witness:
  "findAvailablePort ex_bind \<lparr>range_start = 19222, range_end = 19228, range_step = 2\<rparr> = Some (Inr 19226)
   \<and> findAvailablePort ex_busy \<lparr>range_start = 65534, range_end = 65540, range_step = 2\<rparr>
       = Some (Inl ''ERR_SOCKET_BAD_PORT'')
   \<and> findAvailablePort ex_busy \<lparr>range_start = 19222, range_end = 19228, range_step = 2\<rparr>
       = Some (Inl (''No available ports in range 19222-19228 (step 2). ''
                      @ ''Too many dev-browser servers may be running. ''
                      @ ''Check ~/.dev-browser/active-servers.json for active servers.''))"
  using findAvailablePort_first_free [of "\<lparr>range_start = 19222, range_end = 19228, range_step = 2\<rparr>"
      ex_bind 19226]
    findAvailablePort_first_free [of "\<lparr>range_start = 65534, range_end = 65540, range_step = 2\<rparr>"
      ex_busy 65536]
    findAvailablePort_first_free [of "\<lparr>range_start = 19222, range_end = 19228, range_step = 2\<rparr>"
      ex_busy 0]
  by (simp add: candidates_ex candidates_incl_ex candidates_high_ex ex_bind_def ex_busy_def show_ex
        valid_port_def)

section \<open>The server registry\<close>

lemma load_save: "loadServersFile sys (saveServersFile xs) = xs"
  by (induction xs) (auto simp: loadServersFile_def saveServersFile_def)

lemma scan_ports_iff:
  "\<lparr>orphan_cdpPort = p, orphan_pid = q\<rparr> \<in> set (scan_ports sys A ps)
     \<longleftrightarrow> p \<in> set ps \<and> p \<notin> A \<and> getProcessOnPort sys p = Some q"
  by (induction ps) (auto split: option.splits)

lemma activeCdpPorts_iff:
  "p \<in> activeCdpPorts xs \<longleftrightarrow> p \<noteq> 0 \<and> (\<exists>(k, info) \<in> set xs. cdpPort info = Some p)"
  by (induction xs) (auto simp: activeCdpPorts_def map_values_def split: option.splits)

text \<open>
  Claim C6. For a candidate CDP port other than 0, \<open>detectOrphanedBrowsers\<close> reports
  \<open>{cdpPort, pid}\<close> exactly when the port is among the candidates (the given list, or
  the default one), \<open>getProcessOnPort\<close> finds that pid listening on it, and no registry
  entry whose pid exists claims the port. So a port claimed by a live entry is never
  reported, and a port claimed only by entries with dead pids still is.
\<close>

theorem detectOrphanedBrowsers_iff:
  "p \<noteq> 0 \<longrightarrow>
     (\<lparr>orphan_cdpPort = p, orphan_pid = q\<rparr> \<in> set (detectOrphanedBrowsers sys cdpPorts f)
        \<longleftrightarrow> p \<in> set (case cdpPorts of None \<Rightarrow> [9223, 9225, 9227, 9229, 9231] | Some ps \<Rightarrow> ps)
            \<and> getProcessOnPort sys p = Some q
            \<and> \<not> (\<exists>(k, info) \<in> set (loadServersFile sys f).
                    processExists sys (pid info) \<and> cdpPort info = Some p))"
  by (auto simp: detectOrphanedBrowsers_def Let_def scan_ports_iff activeCdpPorts_iff
        cleanupStaleEntries_def)

lemma ex_lsof: "getProcessOnPort ex_os 9223 = Some 4242 \<and> getProcessOnPort ex_os 9225 = Some 777"
  by (simp add: getProcessOnPort_def ex_os_def trim_def is_space_def parseInt10_def is_digit_def
        digits_val_def digit_val_def Let_def)

theorem detectOrphanedBrowsers_iff_witness:
  "\<lparr>orphan_cdpPort = 9223, orphan_pid = 4242\<rparr> \<in> set (detectOrphanedBrowsers ex_os None ex_file)
   \<and> getProcessOnPort ex_os 9225 = Some 777
   \<and> \<lparr>orphan_cdpPort = 9225, orphan_pid = 777\<rparr> \<notin> set (detectOrphanedBrowsers ex_os None ex_file)"
  using detectOrphanedBrowsers_iff [of 9223 4242 ex_os None ex_file]
    detectOrphanedBrowsers_iff [of 9225 777 ex_os None ex_file] ex_lsof
  by (simp add: ex_file_def loadServersFile_def ex_live_def ex_dead_def ex_os_def)

lemma kill_loop_filter:
  "kill_loop sys xs m n =
     (filter (\<lambda>kv. fst kv \<notin> fst ` {e \<in> set xs. \<not> processExists sys (pid (snd e))}) m,
      n + length (filter (\<lambda>e. \<not> processExists sys (pid (snd e))) xs))"
proof (induction xs arbitrary: m n)
  case Nil
  then show ?case by simp
next
  case (Cons x xs)
  obtain k i where x: "x = (k, i)" by (cases x)
  show ?case
  proof (cases "processExists sys (pid i)")
    case True
    have "{e \<in> set (x # xs). \<not> processExists sys (pid (snd e))}
            = {e \<in> set xs. \<not> processExists sys (pid (snd e))}"
      using True x by auto
    then show ?thesis using True x Cons.IH by simp
  next
    case False
    have "{e \<in> set (x # xs). \<not> processExists sys (pid (snd e))}
            = insert x {e \<in> set xs. \<not> processExists sys (pid (snd e))}"
      using False x by auto
    then show ?thesis
      using False x Cons.IH [of "map_delete m k" "Suc n"]
      by (auto simp: map_delete_def intro: filter_cong)
  qed
qed

lemma distinct_keys_dead:
  assumes "distinct (map_keys xs)"
  shows "filter (\<lambda>kv. fst kv \<notin> fst ` {e \<in> set xs. \<not> processExists sys (pid (snd e))}) xs
           = filter (\<lambda>(k, info). processExists sys (pid info)) xs"
proof (rule filter_cong [OF refl])
  fix kv assume kv: "kv \<in> set xs"
  obtain k i where ki: "kv = (k, i)" by (cases kv)
  have uniq: "\<And>e. e \<in> set xs \<Longrightarrow> fst e = k \<Longrightarrow> snd e = i"
  proof -
    fix e assume "e \<in> set xs" "fst e = k"
    then have "(k, snd e) \<in> set xs" by (metis prod.collapse)
    moreover have "(k, i) \<in> set xs" using kv ki by simp
    ultimately show "snd e = i"
      using assms unfolding map_keys_def by (rule_tac eq_key_imp_eq_value)
  qed
  show "(fst kv \<notin> fst ` {e \<in> set xs. \<not> processExists sys (pid (snd e))})
               = (case kv of (k, info) \<Rightarrow> processExists sys (pid info))"
  proof (cases "processExists sys (pid i)")
    case True
    have "k \<notin> fst ` {e \<in> set xs. \<not> processExists sys (pid (snd e))}"
    proof
      assume "k \<in> fst ` {e \<in> set xs. \<not> processExists sys (pid (snd e))}"
      then obtain e where e: "e \<in> set xs" "fst e = k" "\<not> processExists sys (pid (snd e))"
        by auto
      with uniq [of e] True show False by simp
    qed
    with True ki show ?thesis by simp
  next
    case False
    have "kv \<in> {e \<in> set xs. \<not> processExists sys (pid (snd e))}"
      using kv ki False by simp
    then have "fst kv \<in> fst ` {e \<in> set xs. \<not> processExists sys (pid (snd e))}"
      by (rule imageI)
    with False ki show ?thesis by simp
  qed
qed

lemma most_recent_from:
  "most_recent sys xs t best = Some (port', info) \<Longrightarrow>
     best = Some (port', info) \<or> (\<exists>k. (k, info) \<in> set xs)"
proof (induction xs arbitrary: t best)
  case Nil
  then show ?case by simp
next
  case (Cons x xs)
  obtain k i where x: "x = (k, i)" by (cases x)
  from Cons.prems x consider
      (upd) ms where "most_recent sys xs ms (Some (parseInt10 k, i)) = Some (port', info)"
    | (keep) "most_recent sys xs t best = Some (port', info)"
    by (auto split: option.splits if_splits)
  then show ?case
  proof cases
    case upd
    from Cons.IH [OF upd] x show ?thesis by auto
  next
    case keep
    from Cons.IH [OF keep] show ?thesis by auto
  qed
qed

lemma filter_length_eq: "length (filter P xs) = length xs \<Longrightarrow> filter P xs = xs"
  by (metis filter_True length_filter_less nat_less_le)

lemma registerServer_others:
  "k \<noteq> show_int port \<Longrightarrow>
     ((k, info) \<in> set (loadServersFile sys (registerServer sys port p options f))
        \<longleftrightarrow> (k, info) \<in> set (loadServersFile sys f) \<and> processExists sys (pid info))"
  by (simp add: registerServer_def Let_def load_save cleanupStaleEntries_def set_map_set_other)

lemma registerServer_own:
  "map_get (loadServersFile sys (registerServer sys port p options f)) (show_int port)
     = Some \<lparr>pid = p,
             cdpPort = (case options of None \<Rightarrow> None | Some opt \<Rightarrow> opt_cdpPort opt),
             browserPid = (case options of None \<Rightarrow> None | Some opt \<Rightarrow> opt_browserPid opt),
             mode = (case options of
                       None \<Rightarrow> Standalone
                     | Some opt \<Rightarrow> (case opt_mode opt of None \<Rightarrow> Standalone | Some m \<Rightarrow> m)),
             startedAt = now sys\<rparr>"
  by (simp add: registerServer_def Let_def load_save map_get_map_set_same)

lemma unregisterServer_entries:
  "((k, info) \<in> set (loadServersFile sys (snd (unregisterServer sys port f)))
      \<longleftrightarrow> k \<noteq> show_int port \<and> (k, info) \<in> set (loadServersFile sys f)
          \<and> processExists sys (pid info))"
  by (auto simp: unregisterServer_def Let_def load_save cleanupStaleEntries_def map_delete_def)

lemma unregisterServer_count:
  "fst (unregisterServer sys port f)
      = length (loadServersFile sys (snd (unregisterServer sys port f)))"
  by (simp add: unregisterServer_def Let_def load_save map_keys_def)

lemma getActiveServerCount_live:
  "getActiveServerCount sys f
      = length (filter (\<lambda>(k, info). processExists sys (pid info)) (loadServersFile sys f))"
  by (simp add: getActiveServerCount_def Let_def cleanupStaleEntries_def map_keys_def)

lemma getMostRecentServer_file:
  "loadServersFile sys (snd (getMostRecentServer sys f))
      = filter (\<lambda>(k, info). processExists sys (pid info)) (loadServersFile sys f)"
proof (cases "length (filter (\<lambda>(k, info). processExists sys (pid info)) (loadServersFile sys f))
                = length (loadServersFile sys f)")
  case True
  then show ?thesis
    using filter_length_eq [OF True]
    by (simp add: getMostRecentServer_def Let_def cleanupStaleEntries_def map_keys_def)
next
  case False
  then show ?thesis
    by (simp add: getMostRecentServer_def Let_def cleanupStaleEntries_def map_keys_def load_save)
qed

lemma getMostRecentServer_live:
  assumes "fst (getMostRecentServer sys f) = Some (port', info)"
  shows "processExists sys (pid info) \<and> (\<exists>k. (k, info) \<in> set (loadServersFile sys f))"
proof -
  have "\<exists>k. (k, info) \<in> set (cleanupStaleEntries sys (loadServersFile sys f))"
    using assms most_recent_from [of sys "cleanupStaleEntries sys (loadServersFile sys f)" 0 None port' info]
    by (simp add: getMostRecentServer_def Let_def)
  then show ?thesis
    by (auto simp: cleanupStaleEntries_def)
qed

lemma killStaleServers_pruned:
  assumes d: "distinct (map_keys (loadServersFile sys f))"
  shows "loadServersFile sys (snd (killStaleServers sys f))
           = filter (\<lambda>(k, info). processExists sys (pid info)) (loadServersFile sys f)
         \<and> fst (killStaleServers sys f)
           = length (filter (\<lambda>(k, info). \<not> processExists sys (pid info)) (loadServersFile sys f))"
proof -
  let ?L = "loadServersFile sys f"
  have dead: "filter (\<lambda>e. \<not> processExists sys (pid (snd e))) ?L
                = filter (\<lambda>(k, info). \<not> processExists sys (pid info)) ?L"
    by (rule filter_cong) auto
  have loop: "kill_loop sys ?L ?L 0
                = (filter (\<lambda>(k, info). processExists sys (pid info)) ?L,
                   length (filter (\<lambda>(k, info). \<not> processExists sys (pid info)) ?L))"
    by (simp add: kill_loop_filter distinct_keys_dead [OF d] dead)
  show ?thesis
  proof (cases "filter (\<lambda>(k, info). \<not> processExists sys (pid info)) ?L = []")
    case True
    then have "filter (\<lambda>(k, info). processExists sys (pid info)) ?L = ?L"
      by (auto simp: filter_empty_conv filter_id_conv)
    with True loop show ?thesis
      by (simp add: killStaleServers_def Let_def)
  next
    case False
    with loop show ?thesis
      by (simp add: killStaleServers_def Let_def load_save)
  qed
qed

lemma detectOrphanedBrowsers_pruned:
  "detectOrphanedBrowsers sys cdpPorts f
      = detectOrphanedBrowsers sys cdpPorts
          (saveServersFile (filter (\<lambda>(k, info). processExists sys (pid info)) (loadServersFile sys f)))"
  by (simp add: detectOrphanedBrowsers_def Let_def load_save cleanupStaleEntries_def)

text \<open>
  Claim C5, as amended. Every registry operation works on the loaded registry without
  the entries whose pid does not exist, and keeps every other entry as loaded, apart from
  the entry under the operation's own port: \<open>registerServer\<close> persists the live entries
  under the other keys (and under its own key the new entry), \<open>unregisterServer\<close> persists
  the live entries under the other keys and returns their number, \<open>getActiveServerCount\<close>
  counts the live entries, \<open>getMostRecentServer\<close> leaves the live entries in the file
  and returns one of them, \<open>killStaleServers\<close> (the keys of the file being distinct)
  leaves the live entries in the file and returns the number of dead ones, and
  \<open>detectOrphanedBrowsers\<close> answers as it does on the pruned registry.
\<close>

theorem registry_pruning:
  "(\<forall>k info. k \<noteq> show_int port \<longrightarrow>
       ((k, info) \<in> set (loadServersFile sys (registerServer sys port p options f))
          \<longleftrightarrow> (k, info) \<in> set (loadServersFile sys f) \<and> processExists sys (pid info)))
 \<and> (\<forall>k info. (k, info) \<in> set (loadServersFile sys (snd (unregisterServer sys port f)))
          \<longleftrightarrow> k \<noteq> show_int port \<and> (k, info) \<in> set (loadServersFile sys f)
              \<and> processExists sys (pid info))
 \<and> fst (unregisterServer sys port f)
      = length (loadServersFile sys (snd (unregisterServer sys port f)))
 \<and> getActiveServerCount sys f
      = length (filter (\<lambda>(k, info). processExists sys (pid info)) (loadServersFile sys f))
 \<and> loadServersFile sys (snd (getMostRecentServer sys f))
      = filter (\<lambda>(k, info). processExists sys (pid info)) (loadServersFile sys f)
 \<and> (\<forall>port' info. fst (getMostRecentServer sys f) = Some (port', info) \<longrightarrow>
       processExists sys (pid info) \<and> (\<exists>k. (k, info) \<in> set (loadServersFile sys f)))
 \<and> (distinct (map_keys (loadServersFile sys f)) \<longrightarrow>
       loadServersFile sys (snd (killStaleServers sys f))
         = filter (\<lambda>(k, info). processExists sys (pid info)) (loadServersFile sys f)
       \<and> fst (killStaleServers sys f)
         = length (filter (\<lambda>(k, info). \<not> processExists sys (pid info)) (loadServersFile sys f)))
 \<and> detectOrphanedBrowsers sys cdpPorts f
      = detectOrphanedBrowsers sys cdpPorts
          (saveServersFile (filter (\<lambda>(k, info). processExists sys (pid info)) (loadServersFile sys f)))
 \<and> map_get (loadServersFile sys (registerServer sys port p options f)) (show_int port)
      = Some \<lparr>pid = p,
              cdpPort = (case options of None \<Rightarrow> None | Some opt \<Rightarrow> opt_cdpPort opt),
              browserPid = (case options of None \<Rightarrow> None | Some opt \<Rightarrow> opt_browserPid opt),
              mode = (case options of
                        None \<Rightarrow> Standalone
                      | Some opt \<Rightarrow> (case opt_mode opt of None \<Rightarrow> Standalone | Some m \<Rightarrow> m)),
              startedAt = now sys\<rparr>"
proof -
  have c1: "\<forall>k info. k \<noteq> show_int port \<longrightarrow>
       ((k, info) \<in> set (loadServersFile sys (registerServer sys port p options f))
          \<longleftrightarrow> (k, info) \<in> set (loadServersFile sys f) \<and> processExists sys (pid info))"
    using registerServer_others by blast
  have c2: "\<forall>k info. (k, info) \<in> set (loadServersFile sys (snd (unregisterServer sys port f)))
          \<longleftrightarrow> k \<noteq> show_int port \<and> (k, info) \<in> set (loadServersFile sys f)
              \<and> processExists sys (pid info)"
    using unregisterServer_entries by blast
  have c6: "\<forall>port' info. fst (getMostRecentServer sys f) = Some (port', info) \<longrightarrow>
       processExists sys (pid info) \<and> (\<exists>k. (k, info) \<in> set (loadServersFile sys f))"
    using getMostRecentServer_live by blast
  have c7: "distinct (map_keys (loadServersFile sys f)) \<longrightarrow>
       loadServersFile sys (snd (killStaleServers sys f))
         = filter (\<lambda>(k, info). processExists sys (pid info)) (loadServersFile sys f)
       \<and> fst (killStaleServers sys f)
         = length (filter (\<lambda>(k, info). \<not> processExists sys (pid info)) (loadServersFile sys f))"
    using killStaleServers_pruned by blast
  show ?thesis
    by (rule conjI [OF c1 conjI [OF c2 conjI [OF unregisterServer_count
          conjI [OF getActiveServerCount_live conjI [OF getMostRecentServer_file
          conjI [OF c6 conjI [OF c7 conjI [OF detectOrphanedBrowsers_pruned
          registerServer_own]]]]]]]])
qed

lemma ex_keys: "show_int 19222 = ''19222'' \<and> show_int 19230 = ''19230''"
  by (simp add: show_int_def show_nat.simps digit_char_def)

lemma ex_load: "loadServersFile ex_os ex_file = [(''19222'', ex_live), (''19224'', ex_dead)]"
  by (simp add: loadServersFile_def ex_file_def)

lemma ex_alive: "processExists ex_os (pid ex_live) \<and> \<not> processExists ex_os (pid ex_dead)"
  by (simp add: ex_os_def ex_live_def ex_dead_def)

text \<open>
  The claim C5 as stated fails: \<open>unregisterServer\<close> removes the entry under its own port
  although the pid of that entry exists.
\<close>

theorem registry_pruning_counterexample:
  "processExists ex_os (pid ex_live)
   \<and> (''19222'', ex_live) \<in> set (loadServersFile ex_os ex_file)
   \<and> (''19222'', ex_live) \<notin> set (loadServersFile ex_os (snd (unregisterServer ex_os 19222 ex_file)))"
  by (simp add: ex_alive ex_load ex_keys unregisterServer_def Let_def map_delete_def
        cleanupStaleEntries_def load_save)

theorem registry_pruning_witness:
  "(''19222'', ex_live) \<in> set (loadServersFile ex_os (registerServer ex_os 19230 100 None ex_file))
   \<and> (''19224'', ex_dead) \<notin> set (loadServersFile ex_os (registerServer ex_os 19230 100 None ex_file))
   \<and> (''19224'', ex_dead) \<notin> set (loadServersFile ex_os (snd (unregisterServer ex_os 19230 ex_file)))
   \<and> fst (unregisterServer ex_os 19230 ex_file) = 1
   \<and> getActiveServerCount ex_os ex_file = 1
   \<and> loadServersFile ex_os (snd (getMostRecentServer ex_os ex_file)) = [(''19222'', ex_live)]
   \<and> fst (getMostRecentServer ex_os ex_file) = Some (Some 19222, ex_live)
   \<and> loadServersFile ex_os (snd (killStaleServers ex_os ex_file)) = [(''19222'', ex_live)]
   \<and> fst (killStaleServers ex_os ex_file) = 1"
proof -
  have cleaned: "cleanupStaleEntries ex_os (loadServersFile ex_os ex_file) = [(''19222'', ex_live)]"
    using ex_alive by (simp add: ex_load cleanupStaleEntries_def)
  have gt: "getTime ex_os (startedAt ex_live) = Some 1"
    by (simp add: ex_os_def)
  have pi: "parseInt10 ''19222'' = Some 19222"
    by (simp add: parseInt10_def is_space_def is_digit_def digits_val_def digit_val_def)
  have recent: "fst (getMostRecentServer ex_os ex_file) = Some (Some 19222, ex_live)"
    by (simp add: getMostRecentServer_def Let_def cleaned gt pi)
  have d: "distinct (map_keys (loadServersFile ex_os ex_file))"
    by (simp add: ex_load map_keys_def)
  have k: "''19222'' \<noteq> show_int 19230" "''19224'' \<noteq> show_int 19230"
    by (simp_all add: ex_keys)
  have two: "ex_live \<noteq> ex_dead"
    by (simp add: ex_live_def ex_dead_def)
  have c: "fst (unregisterServer ex_os 19230 ex_file) = 1"
    using ex_alive
    by (simp add: unregisterServer_def Let_def ex_load ex_keys map_delete_def cleanupStaleEntries_def
          map_keys_def)
  show ?thesis
    using registry_pruning [of 19230 ex_os 100 None ex_file None] recent d k two c ex_alive
    by (simp add: ex_load)
qed

section \<open>The invariant of the server state\<close>

text \<open>
  The invariant holds when the server starts and is kept by \<open>POST /pages\<close>,
  \<open>DELETE /pages/:name\<close> and the close event of an open page; it implies that the state
  is well-formed.
\<close>

lemma server_inv_well_formed: "server_inv s \<Longrightarrow> well_formed s"
  unfolding server_inv_def well_formed_def by fastforce

lemma map_set_fresh: "map_get m k = None \<Longrightarrow> map_set m k v = m @ [(k, v)]"
  by (induction m) (auto split: if_splits)

lemma map_get_append_fresh:
  "map_get (m @ [(k, v)]) k' = (case map_get m k' of Some x \<Rightarrow> Some x | None \<Rightarrow> if k = k' then Some v else None)"
  by (induction m) auto

lemma set_map_delete: "set (map_delete m k) \<subseteq> set m"
  by (auto simp: map_delete_def)

lemma distinct_map_delete:
  "distinct (map f m) \<Longrightarrow> distinct (map f (map_delete m k))"
  by (simp add: map_delete_def distinct_map_filter)

lemma fold_delete_filter:
  "fold (\<lambda>(q, n) r. if q = p then map_delete r n else r) obs reg
     = filter (\<lambda>kv. (p, fst kv) \<notin> set obs) reg"
proof (induction obs arbitrary: reg)
  case Nil
  show ?case by simp
next
  case (Cons a obs)
  obtain q n where a: "a = (q, n)" by (cases a)
  show ?case
    using a by (auto simp: Cons.IH map_delete_def intro: filter_cong)
qed

lemma map_get_filter_keys:
  "map_get (filter (\<lambda>kv. P (fst kv)) m) k = (if P k then map_get m k else None)"
  by (induction m) auto

lemma server_invI:
  assumes "distinct (map_keys (registry s))"
    and "distinct (map (\<lambda>(n, e). entry_page e) (registry s))"
    and "\<And>p n. (p, n) \<in> set (observers s) \<Longrightarrow> p \<in> set (open_pages s)
           \<Longrightarrow> \<exists>e. map_get (registry s) n = Some e \<and> entry_page e = p"
    and "\<And>n e. (n, e) \<in> set (registry s) \<Longrightarrow> entry_page e < next_page s"
    and "\<And>p. p \<in> set (open_pages s) \<Longrightarrow> p < next_page s"
    and "\<And>p n. (p, n) \<in> set (observers s) \<Longrightarrow> p < next_page s"
  shows "server_inv s"
  unfolding server_inv_def using assms by blast

lemma server_inv_observed:
  assumes "server_inv s" "(p, n) \<in> set (observers s)"
  shows "p < next_page s"
proof -
  have a: "\<forall>(p, n) \<in> set (observers s). p < next_page s"
    using assms(1) by (simp add: server_inv_def)
  from bspec [OF a assms(2)] show ?thesis by simp
qed

lemma server_inv_observer:
  assumes "server_inv s" "(p, n) \<in> set (observers s)" "p \<in> set (open_pages s)"
  shows "\<exists>e. map_get (registry s) n = Some e \<and> entry_page e = p"
proof -
  have a: "\<forall>(p, n) \<in> set (observers s). p \<in> set (open_pages s) \<longrightarrow>
             (\<exists>e. map_get (registry s) n = Some e \<and> entry_page e = p)"
    using assms(1) by (simp add: server_inv_def)
  from bspec [OF a assms(2)] assms(3) show ?thesis by simp
qed

lemma server_inv_fresh:
  assumes "server_inv s" "(n, e) \<in> set (registry s)"
  shows "entry_page e < next_page s"
proof -
  have a: "\<forall>(n, e) \<in> set (registry s). entry_page e < next_page s"
    using assms(1) by (simp add: server_inv_def)
  from bspec [OF a assms(2)] show ?thesis by simp
qed

lemma map_get_in_set: "map_get m k = Some v \<Longrightarrow> (k, v) \<in> set m"
  by (induction m) (auto split: if_splits)

lemma on_close_inv:
  assumes inv: "server_inv s" and op: "p \<in> set (open_pages s)"
  shows "server_inv (on_close p s)"
proof (rule server_invI)
  let ?reg' = "filter (\<lambda>kv. (p, fst kv) \<notin> set (observers s)) (registry s)"
  have r: "registry (on_close p s) = ?reg'"
    by (simp add: on_close_def fold_delete_filter)
  have o: "observers (on_close p s) = observers s" "next_page (on_close p s) = next_page s"
    "open_pages (on_close p s) = filter (\<lambda>q. q \<noteq> p) (open_pages s)"
    by (simp_all add: on_close_def)
  show "distinct (map_keys (registry (on_close p s)))"
    using inv unfolding r map_keys_def server_inv_def by (simp add: distinct_map_filter)
  show "distinct (map (\<lambda>(n, e). entry_page e) (registry (on_close p s)))"
    using inv unfolding r server_inv_def by (simp add: distinct_map_filter)
  show "\<exists>e. map_get (registry (on_close p s)) n = Some e \<and> entry_page e = q"
    if a: "(q, n) \<in> set (observers (on_close p s))" "q \<in> set (open_pages (on_close p s))" for q n
  proof -
    from a have q: "(q, n) \<in> set (observers s)" "q \<in> set (open_pages s)" "q \<noteq> p"
      by (simp_all add: o)
    from server_inv_observer [OF inv q(1,2)] obtain e where
      e: "map_get (registry s) n = Some e" "entry_page e = q" by blast
    have "(p, n) \<notin> set (observers s)"
    proof
      assume "(p, n) \<in> set (observers s)"
      from server_inv_observer [OF inv this op] e q(3) show False by auto
    qed
    then have "map_get ?reg' n = Some e"
      using e(1) map_get_filter_keys [of "\<lambda>k. (p, k) \<notin> set (observers s)" "registry s" n]
      by simp
    then show ?thesis using e(2) r by simp
  qed
  show "entry_page e < next_page (on_close p s)" if "(n, e) \<in> set (registry (on_close p s))" for n e
    using that server_inv_fresh [OF inv, of n e] by (simp add: r o)
  show "q < next_page (on_close p s)" if "q \<in> set (open_pages (on_close p s))" for q
    using that inv by (simp add: o server_inv_def)
  show "q < next_page (on_close p s)" if "(q, n) \<in> set (observers (on_close p s))" for q n
    using that server_inv_observed [OF inv, of q n] by (simp add: o)
qed

lemma page_close_inv:
  assumes "server_inv s" "page_close rej p s = Inr s'"
  shows "server_inv s'"
  using assms on_close_inv by (auto simp: page_close_def split: if_splits)

lemma map_get_keys: "map_get m k = None \<Longrightarrow> k \<notin> set (map_keys m)"
  by (simp add: map_get_None_iff)

lemma delete_name_inv:
  assumes inv: "server_inv s" and e: "map_get (registry s) name = Some entry"
    and closed: "entry_page entry \<notin> set (open_pages s)"
  shows "server_inv (s\<lparr> registry := map_delete (registry s) name \<rparr>)"
proof (rule server_invI)
  let ?s' = "s\<lparr> registry := map_delete (registry s) name \<rparr>"
  show "distinct (map_keys (registry ?s'))"
    using inv unfolding map_keys_def server_inv_def by (simp add: distinct_map_delete)
  show "distinct (map (\<lambda>(n, e). entry_page e) (registry ?s'))"
    using inv unfolding server_inv_def by (simp add: distinct_map_delete)
  show "\<exists>e. map_get (registry ?s') n = Some e \<and> entry_page e = q"
    if a: "(q, n) \<in> set (observers ?s')" "q \<in> set (open_pages ?s')" for q n
  proof -
    from a have q: "(q, n) \<in> set (observers s)" "q \<in> set (open_pages s)" by simp_all
    from server_inv_observer [OF inv q] obtain e' where
      e': "map_get (registry s) n = Some e'" "entry_page e' = q" by blast
    have "n \<noteq> name"
    proof
      assume "n = name"
      with e e' have "entry_page entry = q" by simp
      with closed q(2) show False by simp
    qed
    then show ?thesis using e' by (simp add: map_get_map_delete)
  qed
  show "entry_page e' < next_page ?s'" if "(n, e') \<in> set (registry ?s')" for n e'
  proof -
    from that have "(n, e') \<in> set (registry s)" using set_map_delete [of "registry s" name] by auto
    from server_inv_fresh [OF inv this] show ?thesis by simp
  qed
  show "q < next_page ?s'" if "q \<in> set (open_pages ?s')" for q
    using that inv by (simp add: server_inv_def)
  show "q < next_page ?s'" if "(q, n) \<in> set (observers ?s')" for q n
    using that server_inv_observed [OF inv, of q n] by simp
qed

lemma page_close_registry:
  assumes "server_inv s" "page_close rej p s = Inr s'" "map_get (registry s') k = Some v"
  shows "map_get (registry s) k = Some v"
proof (cases "p \<in> set (open_pages s)")
  case True
  then have "s' = on_close p s" using assms(2) by (simp add: page_close_def split: if_splits)
  then have "registry s' = filter (\<lambda>kv. (p, fst kv) \<notin> set (observers s)) (registry s)"
    by (simp add: on_close_def fold_delete_filter)
  then show ?thesis
    using assms(3) map_get_filter_keys [of "\<lambda>k. (p, k) \<notin> set (observers s)" "registry s" k]
    by (simp split: if_splits)
next
  case False
  then show ?thesis using assms(2,3) by (simp add: page_close_def split: if_splits)
qed

lemma delete_page_inv:
  assumes inv: "server_inv s"
  shows "server_inv (snd (delete_page rej raw s))"
proof (cases "decodeURIComponent raw")
  case None
  then show ?thesis using inv by (simp add: delete_page_def)
next
  case (Some name)
  show ?thesis
  proof (cases "map_get (registry s) name")
    case None
    then show ?thesis using inv Some by (simp add: delete_page_def)
  next
    case (Some entry)
    note e = Some
    show ?thesis
    proof (cases "page_close rej (entry_page entry) s")
      case (Inl err)
      then show ?thesis using inv \<open>decodeURIComponent raw = Some name\<close> e by (simp add: delete_page_def)
    next
      case (Inr s1)
      have inv1: "server_inv s1" by (rule page_close_inv [OF inv Inr])
      have closed: "entry_page entry \<notin> set (open_pages s1)" by (rule page_close_closed [OF Inr])
      have res: "snd (delete_page rej raw s) = s1\<lparr> registry := map_delete (registry s1) name \<rparr>"
        using \<open>decodeURIComponent raw = Some name\<close> e Inr by (simp add: delete_page_def)
      show ?thesis
      proof (cases "map_get (registry s1) name")
        case None
        then have "map_delete (registry s1) name = registry s1"
          using map_get_keys [OF None] by (auto simp: map_delete_def map_keys_def filter_id_conv)
        then show ?thesis using inv1 res by simp
      next
        case (Some entry1)
        from page_close_registry [OF inv Inr Some] e have "entry1 = entry" by simp
        with Some closed delete_name_inv [OF inv1, of name entry] res show ?thesis by simp
      qed
    qed
  qed
qed

lemma open_page_inv:
  assumes inv: "server_inv s"
  shows "server_inv (s\<lparr> open_pages := open_pages s @ [next_page s], next_page := Suc (next_page s) \<rparr>)"
proof (rule server_invI)
  let ?s' = "s\<lparr> open_pages := open_pages s @ [next_page s], next_page := Suc (next_page s) \<rparr>"
  show "distinct (map_keys (registry ?s'))" using inv by (simp add: server_inv_def)
  show "distinct (map (\<lambda>(n, e). entry_page e) (registry ?s'))"
    using inv by (simp add: server_inv_def)
  show "\<exists>e. map_get (registry ?s') n = Some e \<and> entry_page e = q"
    if a: "(q, n) \<in> set (observers ?s')" "q \<in> set (open_pages ?s')" for q n
  proof -
    from a(1) have obs: "(q, n) \<in> set (observers s)" by simp
    from server_inv_observed [OF inv obs] have "q \<noteq> next_page s" by simp
    with a(2) have "q \<in> set (open_pages s)" by simp
    from server_inv_observer [OF inv obs this] show ?thesis by simp
  qed
  show "entry_page e < next_page ?s'" if "(n, e) \<in> set (registry ?s')" for n e
    using that server_inv_fresh [OF inv, of n e] by simp
  show "q < next_page ?s'" if "q \<in> set (open_pages ?s')" for q
    using that inv by (auto simp: server_inv_def less_Suc_eq)
  show "q < next_page ?s'" if "(q, n) \<in> set (observers ?s')" for q n
    using that server_inv_observed [OF inv, of q n] by simp
qed

lemma register_page_inv:
  assumes inv: "server_inv s" and fresh: "map_get (registry s) name = None"
  shows "server_inv (s\<lparr> open_pages := open_pages s @ [next_page s],
                        next_page := Suc (next_page s),
                        registry := map_set (registry s) name
                                      \<lparr>entry_page = next_page s, entry_targetId = tid\<rparr>,
                        observers := observers s @ [(next_page s, name)] \<rparr>)"
proof (rule server_invI)
  let ?e = "\<lparr>entry_page = next_page s, entry_targetId = tid\<rparr>"
  let ?s' = "s\<lparr> open_pages := open_pages s @ [next_page s], next_page := Suc (next_page s),
                registry := map_set (registry s) name ?e,
                observers := observers s @ [(next_page s, name)] \<rparr>"
  have reg: "registry ?s' = registry s @ [(name, ?e)]"
    by (simp add: map_set_fresh [OF fresh])
  have lt: "\<And>n e. (n, e) \<in> set (registry s) \<Longrightarrow> entry_page e < next_page s"
    by (rule server_inv_fresh [OF inv])
  show "distinct (map_keys (registry ?s'))"
    using inv map_get_keys [OF fresh] unfolding reg by (simp add: server_inv_def map_keys_def)
  show "distinct (map (\<lambda>(n, e). entry_page e) (registry ?s'))"
  proof -
    have "next_page s \<notin> set (map (\<lambda>(n, e). entry_page e) (registry s))"
    proof
      assume "next_page s \<in> set (map (\<lambda>(n, e). entry_page e) (registry s))"
      then obtain n e where "(n, e) \<in> set (registry s)" "entry_page e = next_page s" by auto
      with lt [of n e] show False by simp
    qed
    then show ?thesis using inv unfolding reg by (simp add: server_inv_def)
  qed
  show "\<exists>e. map_get (registry ?s') n = Some e \<and> entry_page e = q"
    if a: "(q, n) \<in> set (observers ?s')" "q \<in> set (open_pages ?s')" for q n
  proof (cases "(q, n) \<in> set (observers s)")
    case True
    from server_inv_observed [OF inv True] have "q \<noteq> next_page s" by simp
    with a(2) have "q \<in> set (open_pages s)" by simp
    from server_inv_observer [OF inv True this] obtain e where
      "map_get (registry s) n = Some e" "entry_page e = q" by blast
    then show ?thesis unfolding reg by (simp add: map_get_append_fresh)
  next
    case False
    with a(1) have "q = next_page s" "n = name" by simp_all
    then show ?thesis using fresh unfolding reg by (simp add: map_get_append_fresh)
  qed
  show "entry_page e < next_page ?s'" if "(n, e) \<in> set (registry ?s')" for n e
    using that lt [of n e] unfolding reg by (auto simp: less_Suc_eq)
  show "q < next_page ?s'" if "q \<in> set (open_pages ?s')" for q
    using that inv by (auto simp: server_inv_def less_Suc_eq)
  show "q < next_page ?s'" if "(q, n) \<in> set (observers ?s')" for q n
    using that server_inv_observed [OF inv, of q n] by (auto simp: less_Suc_eq)
qed

lemma post_pages_inv:
  assumes inv: "server_inv s"
  shows "server_inv (snd (post_pages outcome req_body s))"
proof (cases "validate_name (get_prop req_body ''name'')")
  case (Inl bad)
  then show ?thesis using inv by (simp add: post_pages_def)
next
  case (Inr name)
  show ?thesis
  proof (cases "map_get (registry s) name")
    case (Some entry)
    then show ?thesis using inv Inr by (simp add: post_pages_def)
  next
    case None
    show ?thesis
      using Inr None inv open_page_inv [OF inv] register_page_inv [OF inv None]
      by (cases outcome) (simp_all add: post_pages_def)
  qed
qed

lemma initial_inv:
  "server_inv \<lparr> registry = [], observers = [], open_pages = [], next_page = 0, idleTimer = t,
                 connections = [], cleaningUp = False, browser_connected = True,
                 listening = True, server_port = p, servers = f, effects = [] \<rparr>"
  by (simp add: server_inv_def map_keys_def)

section \<open>Shutdown\<close>

lemma page_close_untouched: "page_close rej p s = Inr s' \<Longrightarrow> untouched s' s"
  by (auto simp: page_close_def on_close_def untouched_def split: if_splits)

lemma close_pages_frame: "untouched (close_pages rej xs s) s"
proof (induction xs arbitrary: s)
  case Nil
  show ?case by (simp add: untouched_def)
next
  case (Cons x xs)
  obtain n e where x: "x = (n, e)" by (cases x)
  let ?s1 = "s\<lparr> effects := effects s @ [PageClose (entry_page e)] \<rparr>"
  have s1: "untouched ?s1 s" by (simp add: untouched_def)
  have tr: "\<And>a b c. untouched a b \<Longrightarrow> untouched b c \<Longrightarrow> untouched a c"
    by (simp add: untouched_def)
  show ?case
  proof (cases "map_get (registry s) n")
    case None
    then show ?thesis using x Cons.IH [of s] by simp
  next
    case (Some y)
    note False = Some
    show ?thesis
    proof (cases "page_close rej (entry_page e) ?s1")
      case (Inl err)
      then have "close_pages rej (x # xs) s = close_pages rej xs ?s1"
        using False x by (simp add: Let_def)
      then show ?thesis using tr [OF Cons.IH [of ?s1] s1] by simp
    next
      case (Inr s2)
      then have "close_pages rej (x # xs) s = close_pages rej xs s2"
        using False x by (simp add: Let_def)
      then show ?thesis
        using tr [OF Cons.IH [of s2] tr [OF page_close_untouched [OF Inr] s1]] by simp
    qed
  qed
qed

lemma observer_page:
  assumes a: "\<forall>(p, n) \<in> set obs. p \<in> set ops \<longrightarrow>
                (\<forall>e. map_get reg n = Some e \<longrightarrow> entry_page e = p)"
    and b: "(p, n) \<in> set obs" and c: "p \<in> set ops" and d: "map_get reg n = Some e"
  shows "entry_page e = p"
  using bspec [OF a b] c d by simp

lemma close_pages_effects:
  assumes "\<forall>(n, e) \<in> set rest. map_get (registry s) n = Some e"
    and "distinct (map (\<lambda>(n, e). entry_page e) rest)"
    and "\<forall>(p, n) \<in> set (observers s). p \<in> set (open_pages s) \<longrightarrow>
           (\<forall>e. map_get (registry s) n = Some e \<longrightarrow> entry_page e = p)"
  shows "effects (close_pages rej rest s) = effects s @ map (\<lambda>(n, e). PageClose (entry_page e)) rest"
  using assms
proof (induction rest arbitrary: s)
  case Nil
  then show ?case by simp
next
  case (Cons x rest)
  obtain n e where x: "x = (n, e)" by (cases x)
  let ?p = "entry_page e"
  let ?s1 = "s\<lparr> effects := effects s @ [PageClose ?p] \<rparr>"
  have here: "map_get (registry s) n = Some e" using Cons.prems(1) x by simp
  have rest_in: "\<forall>(n', e') \<in> set rest. map_get (registry s) n' = Some e'"
    using Cons.prems(1) by simp
  have rest_d: "distinct (map (\<lambda>(n, e). entry_page e) rest)"
    using Cons.prems(2) by simp
  have other: "\<forall>(n', e') \<in> set rest. entry_page e' \<noteq> ?p"
    using Cons.prems(2) x by force
  have step1: "effects (close_pages rej rest ?s1) = effects ?s1 @ map (\<lambda>(n, e). PageClose (entry_page e)) rest"
    by (rule Cons.IH) (use rest_in rest_d Cons.prems(3) in simp_all)
  show ?case
  proof (cases "rej ?p \<or> ?p \<notin> set (open_pages s)")
    case True
    then have "close_pages rej (x # rest) s = close_pages rej rest ?s1"
      using here x by (auto simp: page_close_def Let_def)
    then show ?thesis using step1 x by simp
  next
    case False
    let ?s2 = "on_close ?p ?s1"
    have run: "close_pages rej (x # rest) s = close_pages rej rest ?s2"
      using here x False by (simp add: page_close_def Let_def)
    have reg2: "\<And>k. map_get (registry ?s2) k
                  = (if (?p, k) \<in> set (observers s) then None else map_get (registry s) k)"
      by (simp add: on_close_def map_get_fold_delete)
    have keep: "\<forall>(n', e') \<in> set rest. map_get (registry ?s2) n' = Some e'"
    proof (clarify)
      fix n' e' assume r: "(n', e') \<in> set rest"
      then have g: "map_get (registry s) n' = Some e'" using rest_in by auto
      have "(?p, n') \<notin> set (observers s)"
      proof
        assume "(?p, n') \<in> set (observers s)"
        with Cons.prems(3) False g have "entry_page e' = ?p"
          by (intro observer_page [of "observers s" "open_pages s" "registry s"]) simp_all
        with other r show False by auto
      qed
      with g show "map_get (registry ?s2) n' = Some e'" by (simp add: reg2)
    qed
    have obs2: "\<forall>(p, n) \<in> set (observers ?s2). p \<in> set (open_pages ?s2) \<longrightarrow>
           (\<forall>e. map_get (registry ?s2) n = Some e \<longrightarrow> entry_page e = p)"
    proof (clarify)
      fix p k e'
      assume a: "(p, k) \<in> set (observers ?s2)" "p \<in> set (open_pages ?s2)"
        "map_get (registry ?s2) k = Some e'"
      then have "(p, k) \<in> set (observers s)" "p \<in> set (open_pages s)"
        by (simp_all add: on_close_def)
      moreover have "map_get (registry s) k = Some e'"
        using a(3) by (simp add: reg2 split: if_splits)
      ultimately show "entry_page e' = p"
        using Cons.prems(3) by (intro observer_page [of "observers s" "open_pages s" "registry s"])
    qed
    have "effects (close_pages rej rest ?s2) = effects ?s2 @ map (\<lambda>(n, e). PageClose (entry_page e)) rest"
      by (rule Cons.IH [OF keep rest_d obs2])
    then show ?thesis using run x by (simp add: on_close_def)
  qed
qed

lemma cleanup_guarded: "cleaningUp s \<Longrightarrow> cleanup sys rej s = s"
  by (simp add: cleanup_def)

lemma cleanup_sets_guard: "cleaningUp (cleanup sys rej s)"
proof (cases "cleaningUp s")
  case True
  then show ?thesis by (simp add: cleanup_def)
next
  case False
  let ?a = "s\<lparr> cleaningUp := True \<rparr>"
  let ?b = "if idleTimer ?a then ?a\<lparr> idleTimer := False, effects := effects ?a @ [ClearTimeout] \<rparr> else ?a"
  let ?c = "?b\<lparr> effects := effects ?b @ [ConsoleLog (CHR 0x0A # ''Shutting down...'')] \<rparr>"
  let ?d = "?c\<lparr> effects := effects ?c @ map SocketDestroy (connections ?c), connections := [] \<rparr>"
  have "untouched (close_pages rej (registry ?d) ?d) ?d" by (rule close_pages_frame)
  then have "cleaningUp (close_pages rej (registry ?d) ?d)"
    by (simp add: untouched_def)
  then show ?thesis
    using False by (simp add: cleanup_def Let_def case_prod_beta)
qed

lemma cleanup_in_order:
  assumes g: "\<not> cleaningUp s" and wf: "well_formed s"
  shows "effects (cleanup sys rej s) =
           effects s
           @ (if idleTimer s then [ClearTimeout] else [])
           @ [ConsoleLog (CHR 0x0A # ''Shutting down...'')]
           @ map SocketDestroy (connections s)
           @ map (\<lambda>(n, e). PageClose (entry_page e)) (registry s)
           @ [BrowserClose, ServerClose, UnregisterServer (server_port s),
              ConsoleLog (stopped_message (fst (unregisterServer sys (server_port s) (servers s))))]
         \<and> \<not> idleTimer (cleanup sys rej s) \<and> connections (cleanup sys rej s) = []
         \<and> registry (cleanup sys rej s) = [] \<and> \<not> browser_connected (cleanup sys rej s)
         \<and> \<not> listening (cleanup sys rej s)
         \<and> servers (cleanup sys rej s) = snd (unregisterServer sys (server_port s) (servers s))"
proof -
  let ?a = "s\<lparr> cleaningUp := True \<rparr>"
  let ?b = "if idleTimer ?a then ?a\<lparr> idleTimer := False, effects := effects ?a @ [ClearTimeout] \<rparr> else ?a"
  let ?c = "?b\<lparr> effects := effects ?b @ [ConsoleLog (CHR 0x0A # ''Shutting down...'')] \<rparr>"
  let ?d = "?c\<lparr> effects := effects ?c @ map SocketDestroy (connections ?c), connections := [] \<rparr>"
  let ?e = "close_pages rej (registry ?d) ?d"
  have reg: "registry ?d = registry s" "observers ?d = observers s" "open_pages ?d = open_pages s"
    by simp_all
  have fr: "untouched ?e ?d" by (rule close_pages_frame)
  have a1: "\<forall>(n, e) \<in> set (registry ?d). map_get (registry ?d) n = Some e"
    using wf by (auto simp: well_formed_def map_get_distinct)
  have a2: "distinct (map (\<lambda>(n, e). entry_page e) (registry ?d))"
    using wf by (simp add: well_formed_def)
  have a3: "\<forall>(p, n) \<in> set (observers ?d). p \<in> set (open_pages ?d) \<longrightarrow>
              (\<forall>e. map_get (registry ?d) n = Some e \<longrightarrow> entry_page e = p)"
    using wf unfolding reg by (simp add: well_formed_def)
  have ef: "effects ?e = effects ?d @ map (\<lambda>(n, e). PageClose (entry_page e)) (registry ?d)"
    by (rule close_pages_effects [OF a1 a2 a3])
  have d_eff: "effects ?d = effects s @ (if idleTimer s then [ClearTimeout] else [])
                 @ [ConsoleLog (CHR 0x0A # ''Shutting down...'')] @ map SocketDestroy (connections s)"
    by simp
  have d_fields: "\<not> idleTimer ?d" "connections ?d = []" "server_port ?d = server_port s"
    "servers ?d = servers s"
    by simp_all
  have e_fields: "\<not> idleTimer ?e" "connections ?e = []" "server_port ?e = server_port s"
    "servers ?e = servers s"
    using fr d_fields unfolding untouched_def by simp_all
  have unf: "cleanup sys rej s =
      ?e\<lparr> registry := [], browser_connected := False, listening := False,
          servers := snd (unregisterServer sys (server_port ?e) (servers ?e)),
          effects := effects ?e @ [BrowserClose, ServerClose, UnregisterServer (server_port ?e),
            ConsoleLog (stopped_message (fst (unregisterServer sys (server_port ?e) (servers ?e))))] \<rparr>"
    using g by (simp add: cleanup_def Let_def case_prod_beta)
  show ?thesis
    unfolding unf using ef d_eff e_fields reg by simp
qed

lemma cleanup_pieces:
  "\<not> cleaningUp s \<Longrightarrow>
   cleanup sys rej s
     = cleanup_end sys ((close_pages rej (registry (cleanup_begin s)) (cleanup_begin s))
                          \<lparr> registry := [], effects := effects (close_pages rej (registry (cleanup_begin s)) (cleanup_begin s)) @ [BrowserClose] \<rparr>)"
  by (simp add: cleanup_def cleanup_begin_def cleanup_end_def Let_def case_prod_beta)

lemma run_Nil: "run sys rej [] P = P"
  by (simp add: run_def)

lemma run_Cons: "run sys rej (ev # evs) P = run sys rej evs (dispatch sys rej ev P)"
  by (simp add: run_def)

lemma run_append: "run sys rej (evs @ evs') P = run sys rej evs' (run sys rej evs P)"
  by (simp add: run_def)

lemma run_over: "p_over P \<Longrightarrow> run sys rej evs P = P"
  by (induction evs) (simp_all add: run_Nil run_Cons dispatch_def)

lemma run_idle: "p_awaiting P = None \<Longrightarrow> run sys rej (replicate k Resume) P = P"
  by (induction k) (simp_all add: run_Nil run_Cons dispatch_def on_resume_def)

lemma after_cleanup_settled:
  "p_awaiting P = None \<Longrightarrow> run sys rej (replicate k Resume) (after_cleanup t P) = after_cleanup t P"
  by (rule run_idle) (simp add: after_cleanup_def emit_def)

lemma run_resumes:
  assumes "p_awaiting P = Some (w, t)" and "\<not> p_over P" and "visit xs s0 = (w, p_state P)"
    and "length xs < k"
  shows "run sys rej (replicate k Resume) P
           = after_cleanup t
               (P\<lparr> p_state := cleanup_end sys ((close_pages rej xs s0)
                       \<lparr> registry := [], effects := effects (close_pages rej xs s0) @ [BrowserClose] \<rparr>),
                    p_awaiting := None \<rparr>)"
  using assms
proof (induction xs arbitrary: s0 k P w)
  case Nil
  then obtain k' where k: "k = Suc k'" by (cases k) simp_all
  from Nil have w: "w = BrowserClosing"
    and st: "p_state P = s0\<lparr> registry := [], effects := effects s0 @ [BrowserClose] \<rparr>"
    by simp_all
  let ?Q = "P\<lparr> p_state := cleanup_end sys (p_state P), p_awaiting := None \<rparr>"
  have "dispatch sys rej Resume P = after_cleanup t ?Q"
    using Nil.prems(1,2) w by (simp add: dispatch_def on_resume_def cleanup_resume_def)
  then have "run sys rej (replicate k Resume) P = after_cleanup t ?Q"
    unfolding k by (simp add: run_Cons after_cleanup_settled)
  then show ?case using st by simp
next
  case (Cons x xs)
  obtain n e where x: "x = (n, e)" by (cases x)
  show ?case
  proof (cases "map_get (registry s0) n")
    case None
    then have "visit xs s0 = (w, p_state P)" using Cons.prems(3) x by simp
    from Cons.IH [OF Cons.prems(1,2) this] Cons.prems(4) None x show ?thesis by simp
  next
    case (Some y)
    let ?s1 = "s0\<lparr> effects := effects s0 @ [PageClose (entry_page e)] \<rparr>"
    from Some Cons.prems(3) x have w: "w = PageClosing (entry_page e) xs" and st: "p_state P = ?s1"
      by simp_all
    obtain k' where k: "k = Suc k'" using Cons.prems(4) by (cases k) simp_all
    let ?s' = "case page_close rej (entry_page e) ?s1 of Inl err \<Rightarrow> ?s1 | Inr s2 \<Rightarrow> s2"
    obtain w' s'' where v: "visit xs ?s' = (w', s'')" by (cases "visit xs ?s'")
    let ?P' = "P\<lparr> p_state := s'', p_awaiting := Some (w', t) \<rparr>"
    have d: "dispatch sys rej Resume P = ?P'"
      using Cons.prems(1,2) w st v by (simp add: dispatch_def on_resume_def cleanup_resume_def)
    have cp: "close_pages rej (x # xs) s0 = close_pages rej xs ?s'"
      using Some x by (simp add: Let_def split: sum.splits)
    have "run sys rej (replicate k' Resume) ?P'
            = after_cleanup t
               (?P'\<lparr> p_state := cleanup_end sys ((close_pages rej xs ?s')
                       \<lparr> registry := [], effects := effects (close_pages rej xs ?s') @ [BrowserClose] \<rparr>),
                    p_awaiting := None \<rparr>)"
      by (rule Cons.IH) (use Cons.prems(2,4) v k in simp_all)
    then show ?thesis
      unfolding k cp using d by (simp add: run_Cons)
  qed
qed

lemma on_course_over:
  "p_over P \<Longrightarrow> on_course s P \<longleftrightarrow>
     length (effects s) \<le> length (effects (p_state P)) \<and> prefix (done_steps s P) (body_steps s)"
  by (simp add: on_course_def)

lemma on_course_waiting:
  "\<not> p_over P \<Longrightarrow> p_awaiting P = Some (w, t) \<Longrightarrow> on_course s P \<longleftrightarrow>
     length (effects s) \<le> length (effects (p_state P)) \<and> cleaningUp (p_state P)
     \<and> waiting_ok w (p_state P) \<and> server_port (p_state P) = server_port s
     \<and> done_steps s P @ to_come w (p_state P) = body_steps s"
  by (simp add: on_course_def)

lemma on_course_idle:
  "\<not> p_over P \<Longrightarrow> p_awaiting P = None \<Longrightarrow> cleaningUp (p_state P) \<Longrightarrow> on_course s P \<longleftrightarrow>
     length (effects s) \<le> length (effects (p_state P)) \<and> prefix (done_steps s P) (body_steps s)"
  by (simp add: on_course_def)

lemma on_course_fresh:
  "\<not> p_over P \<Longrightarrow> p_awaiting P = None \<Longrightarrow> \<not> cleaningUp (p_state P) \<Longrightarrow> on_course s P \<longleftrightarrow>
     length (effects s) \<le> length (effects (p_state P)) \<and> P = serving s"
  by (simp add: on_course_def)

lemma still_registered_Cons:
  "still_registered ((n, e) # rest) s \<longleftrightarrow> map_get (registry s) n = Some e \<and> still_registered rest s"
  by (simp add: still_registered_def)

lemma still_registered_Nil: "still_registered [] s"
  by (simp add: still_registered_def)

lemma visit_registered:
  "still_registered xs s \<Longrightarrow>
   visit xs s = (case xs of
                   [] \<Rightarrow> (BrowserClosing, s\<lparr> registry := [], effects := effects s @ [BrowserClose] \<rparr>)
                 | (n, e) # rest \<Rightarrow>
                     (PageClosing (entry_page e) rest,
                      s\<lparr> effects := effects s @ [PageClose (entry_page e)] \<rparr>))"
  by (cases xs) (auto simp: still_registered_Cons)

lemma on_close_keeps:
  assumes reg: "still_registered rest s"
    and d: "distinct (p # map (\<lambda>(n, e). entry_page e) rest)"
    and obs: "observers_ok s"
    and opn: "p \<in> set (open_pages s)"
  shows "still_registered rest (on_close p s) \<and> observers_ok (on_close p s)"
proof -
  have same: "\<And>k. map_get (registry (on_close p s)) k
                  = (if (p, k) \<in> set (observers s) then None else map_get (registry s) k)"
    by (simp add: on_close_def map_get_fold_delete)
  have other: "\<forall>(n', e') \<in> set rest. entry_page e' \<noteq> p"
    using d by force
  have a: "still_registered rest (on_close p s)"
    unfolding still_registered_def
  proof (clarify)
    fix n' e' assume r: "(n', e') \<in> set rest"
    then have g: "map_get (registry s) n' = Some e'"
      using reg unfolding still_registered_def by auto
    have "(p, n') \<notin> set (observers s)"
    proof
      assume "(p, n') \<in> set (observers s)"
      with obs opn g have "entry_page e' = p"
        unfolding observers_ok_def
        by (intro observer_page [of "observers s" "open_pages s" "registry s"]) simp_all
      with other r show False by auto
    qed
    with g show "map_get (registry (on_close p s)) n' = Some e'" by (simp add: same)
  qed
  have b: "observers_ok (on_close p s)"
    unfolding observers_ok_def
  proof (clarify)
    fix q k e'
    assume h: "(q, k) \<in> set (observers (on_close p s))" "q \<in> set (open_pages (on_close p s))"
      "map_get (registry (on_close p s)) k = Some e'"
    then have "(q, k) \<in> set (observers s)" "q \<in> set (open_pages s)"
      by (simp_all add: on_close_def)
    moreover have "map_get (registry s) k = Some e'"
      using h(3) by (simp add: same split: if_splits)
    ultimately show "entry_page e' = q"
      using obs unfolding observers_ok_def
      by (intro observer_page [of "observers s" "open_pages s" "registry s"])
  qed
  show ?thesis using a b by simp
qed

lemma settled_cases: "settled rej p s = (if \<not> rej p \<and> p \<in> set (open_pages s) then on_close p s else s)"
  by (simp add: settled_def page_close_def)

lemma settled_fields:
  "effects (settled rej p s) = effects s" "cleaningUp (settled rej p s) = cleaningUp s"
  "server_port (settled rej p s) = server_port s"
  by (simp_all add: settled_cases on_close_def)

lemma settled_keeps:
  assumes "still_registered rest s" and "distinct (p # map (\<lambda>(n, e). entry_page e) rest)"
    and "observers_ok s"
  shows "still_registered rest (settled rej p s) \<and> observers_ok (settled rej p s)"
  using assms on_close_keeps [OF assms] by (simp add: settled_cases)

lemma done_steps_emit:
  assumes "length (effects s) \<le> length (effects (p_state P))"
  shows "done_steps s (P\<lparr> p_state := (p_state P)\<lparr> effects := effects (p_state P) @ es \<rparr> \<rparr>)
           = done_steps s P @ filter body_effect es"
  using assms by (simp add: done_steps_def)

lemma on_course_prefix:
  assumes "on_course s P"
  shows "prefix (done_steps s P) (body_steps s)"
proof (cases "p_over P")
  case True
  with assms show ?thesis by (simp add: on_course_over)
next
  case False
  show ?thesis
  proof (cases "p_awaiting P")
    case None
    show ?thesis
    proof (cases "cleaningUp (p_state P)")
      case True
      with assms False None show ?thesis by (simp add: on_course_idle)
    next
      case c: False
      with assms False None have "P = serving s" by (simp add: on_course_fresh)
      then show ?thesis by (simp add: serving_def done_steps_def)
    qed
  next
    case (Some a)
    obtain w t where a: "a = (w, t)" by (cases a)
    from assms False Some a have "done_steps s P @ to_come w (p_state P) = body_steps s"
      by (simp add: on_course_waiting)
    then show ?thesis by (metis prefixI)
  qed
qed

lemma on_course_length: "on_course s P \<Longrightarrow> length (effects s) \<le> length (effects (p_state P))"
  by (simp add: on_course_def)

lemma filter_body_sockets: "filter body_effect (map SocketDestroy cs) = map SocketDestroy cs"
  by (induction cs) simp_all

lemma filter_body_log: "filter body_effect (trigger_log t) = []"
  by (cases t) simp_all

lemma filter_body_exit: "filter body_effect (trigger_exit t) = []"
  by (cases t) simp_all

lemma on_course_ended:
  assumes "on_course s P" and "filter body_effect es = []"
  shows "on_course s ((emit es (P\<lparr> p_handlers := h \<rparr>))\<lparr> p_over := True \<rparr>)"
proof -
  have l: "length (effects s) \<le> length (effects (p_state P))"
    using assms(1) by (rule on_course_length)
  have "done_steps s ((emit es (P\<lparr> p_handlers := h \<rparr>))\<lparr> p_over := True \<rparr>) = done_steps s P"
    using l assms(2) by (simp add: done_steps_def emit_def)
  then show ?thesis
    using on_course_prefix [OF assms(1)] l by (simp add: on_course_over emit_def)
qed

lemma done_steps_handlers: "done_steps s (P\<lparr> p_handlers := h \<rparr>) = done_steps s P"
  by (simp add: done_steps_def)

lemma on_course_handlers:
  assumes "on_course s P" and "cleaningUp (p_state P)"
  shows "on_course s (P\<lparr> p_handlers := h \<rparr>)"
proof (cases "p_over P")
  case True
  with assms show ?thesis by (simp add: on_course_over done_steps_handlers)
next
  case False
  show ?thesis
  proof (cases "p_awaiting P")
    case None
    with assms False show ?thesis by (simp add: on_course_idle done_steps_handlers)
  next
    case (Some a)
    obtain w t where a: "a = (w, t)" by (cases a)
    with assms Some False show ?thesis by (simp add: on_course_waiting done_steps_handlers)
  qed
qed

lemma call_cleanup_guarded:
  assumes "on_course s P" and "cleaningUp (p_state P)" and "filter body_effect es = []"
    and "trigger_exit t = [] \<longrightarrow> es = []"
  shows "on_course s (call_cleanup t (emit es (P\<lparr> p_handlers := h \<rparr>)))"
proof (cases "trigger_exit t = []")
  case True
  with assms(4) have "es = []" by simp
  then have "call_cleanup t (emit es (P\<lparr> p_handlers := h \<rparr>)) = P\<lparr> p_handlers := h \<rparr>"
    using True assms(2) by (simp add: call_cleanup_def after_cleanup_def emit_def)
  then show ?thesis using on_course_handlers [OF assms(1,2)] by simp
next
  case False
  have "call_cleanup t (emit es (P\<lparr> p_handlers := h \<rparr>))
          = (emit (es @ trigger_exit t) (P\<lparr> p_handlers := h \<rparr>))\<lparr> p_over := True \<rparr>"
    using False assms(2) by (simp add: call_cleanup_def after_cleanup_def emit_def)
  then show ?thesis
    using on_course_ended [OF assms(1), of "es @ trigger_exit t" h] assms(3)
    by (simp add: filter_body_exit)
qed

lemma on_trigger_guarded:
  assumes "on_course s P" and "cleaningUp (p_state P)"
  shows "on_course s (on_trigger t P)"
proof -
  have same: "\<And>Q. Q\<lparr> p_handlers := p_handlers Q \<rparr> = Q" by simp
  have e0: "\<And>Q. emit [] Q = Q" by (simp add: emit_def)
  show ?thesis
  proof (cases t)
    case (IdleTimerFired m)
    then show ?thesis
      using call_cleanup_guarded [OF assms, of "trigger_log t" t "p_handlers P"]
      by (simp add: on_trigger_def)
  next
    case (Signal sig)
    then show ?thesis
      using call_cleanup_guarded [OF assms, of "[]" t "p_handlers P"]
        on_course_ended [OF assms(1), of "[ProcessKilled sig]" "p_handlers P"]
      by (simp add: on_trigger_def e0)
  next
    case (UnhandledError err)
    then show ?thesis
      using call_cleanup_guarded [OF assms, of "trigger_log t" t "p_handlers P"]
        on_course_ended [OF assms(1), of "[ProcessExit 1]" "p_handlers P"]
      by (simp add: on_trigger_def)
  next
    case Stop
    then show ?thesis
      using call_cleanup_guarded [OF assms, of "[]" t False]
      by (simp add: on_trigger_def e0)
  qed
qed

lemma cleanup_begin_fields:
  "registry (cleanup_begin s) = registry s" "observers (cleanup_begin s) = observers s"
  "open_pages (cleanup_begin s) = open_pages s" "server_port (cleanup_begin s) = server_port s"
  "cleaningUp (cleanup_begin s)"
  "effects (cleanup_begin s) = effects s @ (if idleTimer s then [ClearTimeout] else [])
     @ [ConsoleLog (CHR 0x0A # ''Shutting down...'')] @ map SocketDestroy (connections s)"
  by (simp_all add: cleanup_begin_def Let_def)

lemma well_formed_registered:
  assumes "well_formed s" and "registry s' = registry s"
  shows "still_registered (registry s) s'"
  unfolding still_registered_def
proof (clarify)
  fix n e assume "(n, e) \<in> set (registry s)"
  with assms show "map_get (registry s') n = Some e"
    by (simp add: well_formed_def map_get_distinct)
qed

lemma well_formed_observers:
  "well_formed s \<Longrightarrow> registry s' = registry s \<Longrightarrow> observers s' = observers s
     \<Longrightarrow> open_pages s' = open_pages s \<Longrightarrow> observers_ok s'"
  by (simp add: well_formed_def observers_ok_def)

lemma waiting_ok_effects: "waiting_ok w (s\<lparr> effects := es \<rparr>) = waiting_ok w s"
  by (simp add: waiting_ok_def still_registered_def observers_ok_def split: waiting.splits)

lemma call_cleanup_fresh:
  assumes g: "\<not> cleaningUp s" and wf: "well_formed s"
  shows "on_course s (call_cleanup t ((emit (trigger_log t) (serving s))\<lparr> p_handlers := h \<rparr>))"
proof -
  let ?P = "(emit (trigger_log t) (serving s))\<lparr> p_handlers := h \<rparr>"
  let ?s0 = "s\<lparr> effects := effects s @ trigger_log t \<rparr>"
  let ?b = "cleanup_begin ?s0"
  have st: "p_state ?P = ?s0" by (simp add: emit_def serving_def)
  have rb: "registry ?b = registry s" by (simp add: cleanup_begin_fields)
  have reg: "still_registered (registry s) ?b"
    by (rule well_formed_registered [OF wf rb])
  have obs: "observers_ok ?b"
    by (rule well_formed_observers [OF wf]) (simp_all add: cleanup_begin_fields)
  have eb: "effects ?b = effects s @ trigger_log t @ (if idleTimer s then [ClearTimeout] else [])
     @ [ConsoleLog (CHR 0x0A # ''Shutting down...'')] @ map SocketDestroy (connections s)"
    by (simp add: cleanup_begin_fields)
  have v: "visit (registry ?b) ?b =
             (case registry s of
                [] \<Rightarrow> (BrowserClosing, ?b\<lparr> registry := [], effects := effects ?b @ [BrowserClose] \<rparr>)
              | (n, e) # rest \<Rightarrow>
                  (PageClosing (entry_page e) rest,
                   ?b\<lparr> effects := effects ?b @ [PageClose (entry_page e)] \<rparr>))"
    using visit_registered [OF reg] unfolding rb .
  show ?thesis
  proof (cases "registry s")
    case Nil
    let ?s1 = "?b\<lparr> registry := [], effects := effects ?b @ [BrowserClose] \<rparr>"
    have c: "call_cleanup t ?P = ?P\<lparr> p_state := ?s1, p_awaiting := Some (BrowserClosing, t) \<rparr>"
      using g v Nil by (simp add: call_cleanup_def st Let_def)
    show ?thesis
      unfolding c
      by (subst on_course_waiting [where w = BrowserClosing and t = t])
         (simp_all add: emit_def serving_def done_steps_def filter_body_log filter_body_sockets
            to_come_def waiting_ok_def body_steps_def Nil cleanup_begin_fields)
  next
    case (Cons x rest)
    obtain n e where x: "x = (n, e)" by (cases x)
    let ?s1 = "?b\<lparr> effects := effects ?b @ [PageClose (entry_page e)] \<rparr>"
    let ?w = "PageClosing (entry_page e) rest"
    have c: "call_cleanup t ?P = ?P\<lparr> p_state := ?s1, p_awaiting := Some (?w, t) \<rparr>"
      using g v Cons x by (simp add: call_cleanup_def st Let_def)
    have r1: "still_registered rest ?b"
      using reg Cons x by (simp add: still_registered_def)
    have d1: "distinct (entry_page e # map (\<lambda>(n, e). entry_page e) rest)"
      using wf Cons x by (simp add: well_formed_def)
    have wok: "waiting_ok ?w ?b"
      using r1 obs d1 by (simp add: waiting_ok_def)
    show ?thesis
      unfolding c
      by (subst on_course_waiting [where w = ?w and t = t])
         (simp_all add: emit_def serving_def done_steps_def filter_body_log filter_body_sockets
            to_come_def wok waiting_ok_effects body_steps_def Cons x cleanup_begin_fields)
  qed
qed

lemma on_trigger_fresh:
  assumes g: "\<not> cleaningUp s" and wf: "well_formed s"
  shows "on_course s (on_trigger t (serving s))"
proof -
  have e0: "\<And>Q. emit [] Q = Q" by (simp add: emit_def)
  have h: "p_handlers (serving s)" by (simp add: serving_def)
  have same: "\<And>es. (emit es (serving s))\<lparr> p_handlers := True \<rparr> = emit es (serving s)"
    by (simp add: emit_def serving_def)
  have same0: "(serving s)\<lparr> p_handlers := True \<rparr> = serving s"
    by (simp add: serving_def)
  have stop: "(serving s)\<lparr> p_handlers := False \<rparr> = (emit (trigger_log Stop) (serving s))\<lparr> p_handlers := False \<rparr>"
    by (simp add: emit_def)
  show ?thesis
  proof (cases t)
    case (IdleTimerFired m)
    then show ?thesis
      using call_cleanup_fresh [OF g wf, of t True] by (simp add: on_trigger_def same)
  next
    case (Signal sig)
    then show ?thesis
      using call_cleanup_fresh [OF g wf, of t True] h by (simp add: on_trigger_def same0 e0)
  next
    case (UnhandledError err)
    then show ?thesis
      using call_cleanup_fresh [OF g wf, of t True] h by (simp add: on_trigger_def same)
  next
    case Stop
    then show ?thesis
      using call_cleanup_fresh [OF g wf, of Stop False] by (simp add: on_trigger_def e0)
  qed
qed

lemma cleanup_end_fields:
  "cleaningUp (cleanup_end sys s) = cleaningUp s"
  "effects (cleanup_end sys s) = effects s @ [ServerClose, UnregisterServer (server_port s),
     ConsoleLog (stopped_message (fst (unregisterServer sys (server_port s) (servers s))))]"
  by (simp_all add: cleanup_end_def Let_def case_prod_beta)

lemma stopped_message_other: "stopped_message n \<noteq> CHR 0x0A # ''Shutting down...''"
  by (simp add: stopped_message_def)

lemma after_cleanup_course:
  assumes "on_course s Q"
  shows "on_course s (after_cleanup t Q)"
proof (cases "trigger_exit t = []")
  case True
  with assms show ?thesis by (simp add: after_cleanup_def)
next
  case False
  have "Q\<lparr> p_handlers := p_handlers Q \<rparr> = Q" by simp
  with on_course_ended [OF assms filter_body_exit, of t "p_handlers Q"] False
  show ?thesis by (simp add: after_cleanup_def)
qed

lemma on_resume_course:
  assumes oc: "on_course s P" and run: "\<not> p_over P"
  shows "on_course s (on_resume sys rej P)"
proof (cases "p_awaiting P")
  case None
  with oc show ?thesis by (simp add: on_resume_def)
next
  case (Some a)
  obtain w t where a: "a = (w, t)" by (cases a)
  let ?cs = "p_state P"
  from oc run Some a have l: "length (effects s) \<le> length (effects ?cs)"
    and cu: "cleaningUp ?cs" and wok: "waiting_ok w ?cs" and port: "server_port ?cs = server_port s"
    and eq: "done_steps s P @ to_come w ?cs = body_steps s"
    by (simp_all add: on_course_waiting)
  show ?thesis
  proof (cases w)
    case BrowserClosing
    let ?Q = "P\<lparr> p_state := cleanup_end sys ?cs, p_awaiting := None \<rparr>"
    have r: "on_resume sys rej P = after_cleanup t ?Q"
      using Some a BrowserClosing by (simp add: on_resume_def cleanup_resume_def)
    have "done_steps s ?Q = done_steps s P @ [ServerClose, UnregisterServer (server_port ?cs)]"
      using l by (simp add: done_steps_def cleanup_end_fields stopped_message_other)
    then have d: "done_steps s ?Q = body_steps s"
      using eq BrowserClosing by (simp add: to_come_def)
    have "on_course s ?Q"
      by (subst on_course_idle) (use run cu l d in \<open>simp_all add: cleanup_end_fields\<close>)
    then show ?thesis unfolding r by (rule after_cleanup_course)
  next
    case (PageClosing p rest)
    let ?cs' = "settled rej p ?cs"
    from wok PageClosing have reg: "still_registered rest ?cs"
      and d: "distinct (p # map (\<lambda>(n, e). entry_page e) rest)" and obs: "observers_ok ?cs"
      by (simp_all add: waiting_ok_def)
    from settled_keeps [OF reg d obs, of rej]
    have reg': "still_registered rest ?cs'" and obs': "observers_ok ?cs'" by simp_all
    note v = visit_registered [OF reg']
    show ?thesis
    proof (cases rest)
      case Nil
      let ?s1 = "?cs'\<lparr> registry := [], effects := effects ?cs' @ [BrowserClose] \<rparr>"
      let ?Q = "P\<lparr> p_state := ?s1, p_awaiting := Some (BrowserClosing, t) \<rparr>"
      have r: "on_resume sys rej P = ?Q"
        using Some a PageClosing v Nil
        by (simp add: on_resume_def cleanup_resume_def settled_def)
      have dq: "done_steps s ?Q = done_steps s P @ [BrowserClose]"
        using l by (simp add: done_steps_def settled_fields)
      show ?thesis
        unfolding r
        by (subst on_course_waiting [where w = BrowserClosing and t = t])
           (use run l cu port eq PageClosing Nil dq in
             \<open>simp_all add: settled_fields to_come_def waiting_ok_def\<close>)
    next
      case (Cons x rest')
      obtain n e where x: "x = (n, e)" by (cases x)
      let ?w = "PageClosing (entry_page e) rest'"
      let ?s1 = "?cs'\<lparr> effects := effects ?cs' @ [PageClose (entry_page e)] \<rparr>"
      let ?Q = "P\<lparr> p_state := ?s1, p_awaiting := Some (?w, t) \<rparr>"
      have r: "on_resume sys rej P = ?Q"
        using Some a PageClosing v Cons x
        by (simp add: on_resume_def cleanup_resume_def settled_def)
      have dq: "done_steps s ?Q = done_steps s P @ [PageClose (entry_page e)]"
        using l by (simp add: done_steps_def settled_fields)
      have wq: "waiting_ok ?w ?cs'"
        using reg' obs' d Cons x by (simp add: waiting_ok_def still_registered_def)
      show ?thesis
        unfolding r
        by (subst on_course_waiting [where w = ?w and t = t])
           (use run l cu port eq PageClosing Cons x dq wq in
             \<open>simp_all add: settled_fields to_come_def waiting_ok_effects\<close>)
    qed
  qed
qed

lemma dispatch_course:
  assumes g: "\<not> cleaningUp s" and wf: "well_formed s" and oc: "on_course s P"
  shows "on_course s (dispatch sys rej ev P)"
proof (cases "p_over P")
  case True
  with oc show ?thesis by (simp add: dispatch_def)
next
  case False
  show ?thesis
  proof (cases ev)
    case Resume
    with False on_resume_course [OF oc False] show ?thesis by (simp add: dispatch_def)
  next
    case (Trigger t)
    show ?thesis
    proof (cases "cleaningUp (p_state P)")
      case True
      with on_trigger_guarded [OF oc True] False Trigger show ?thesis by (simp add: dispatch_def)
    next
      case c: False
      have "p_awaiting P = None"
      proof (cases "p_awaiting P")
        case (Some a)
        obtain w t' where "a = (w, t')" by (cases a)
        with oc False Some c show ?thesis by (simp add: on_course_waiting)
      qed simp
      with oc False c have "P = serving s" by (simp add: on_course_fresh)
      with on_trigger_fresh [OF g wf] False Trigger show ?thesis by (simp add: dispatch_def)
    qed
  qed
qed

lemma run_course:
  assumes g: "\<not> cleaningUp s" and wf: "well_formed s"
  shows "on_course s P \<Longrightarrow> on_course s (run sys rej evs P)"
proof (induction evs arbitrary: P)
  case Nil
  then show ?case by (simp add: run_Nil)
next
  case (Cons ev evs)
  from Cons.IH [OF dispatch_course [OF g wf Cons.prems]] show ?case by (simp add: run_Cons)
qed

lemma serving_course: "\<not> cleaningUp s \<Longrightarrow> on_course s (serving s)"
  by (subst on_course_fresh) (simp_all add: serving_def)

lemma run_prefix:
  assumes "\<not> cleaningUp s" and "well_formed s"
  shows "prefix (filter body_effect (drop (length (effects s))
                   (effects (p_state (run sys rej evs (serving s))))))
                (body_steps s)"
  using on_course_prefix [OF run_course [OF assms serving_course [OF assms(1)]], of sys rej evs]
  by (simp add: done_steps_def)

lemma unregisterServer_result:
  "unregisterServer sys port f =
     (length (filter (\<lambda>(k, info). k \<noteq> show_int port \<and> processExists sys (pid info))
                (loadServersFile sys f)),
      saveServersFile (filter (\<lambda>(k, info). k \<noteq> show_int port \<and> processExists sys (pid info))
                         (loadServersFile sys f)))"
  by (simp add: unregisterServer_def Let_def cleanupStaleEntries_def map_delete_def map_keys_def
        split_def)

lemma on_trigger_serving:
  "on_trigger t (serving s)
     = call_cleanup t ((emit (trigger_log t) (serving s))\<lparr> p_handlers := (t \<noteq> Stop) \<rparr>)"
  by (cases t) (simp_all add: on_trigger_def serving_def emit_def)

lemma run_uninterrupted:
  assumes g: "\<not> cleaningUp s" and k: "length (registry s) < k"
  shows "p_state (run sys rej (Trigger t # replicate k Resume) (serving s))
           = (cleanup sys rej (s\<lparr> effects := effects s @ trigger_log t \<rparr>))
               \<lparr> effects := effects (cleanup sys rej (s\<lparr> effects := effects s @ trigger_log t \<rparr>))
                              @ trigger_exit t \<rparr>"
proof -
  let ?P = "(emit (trigger_log t) (serving s))\<lparr> p_handlers := (t \<noteq> Stop) \<rparr>"
  let ?s0 = "s\<lparr> effects := effects s @ trigger_log t \<rparr>"
  let ?b = "cleanup_begin ?s0"
  have st: "p_state ?P = ?s0" by (simp add: emit_def serving_def)
  have g0: "\<not> cleaningUp ?s0" using g by simp
  obtain w s1 where v: "visit (registry ?b) ?b = (w, s1)" by (cases "visit (registry ?b) ?b")
  let ?P1 = "?P\<lparr> p_state := s1, p_awaiting := Some (w, t) \<rparr>"
  have d: "dispatch sys rej (Trigger t) (serving s) = ?P1"
    using g v by (simp add: dispatch_def on_trigger_serving call_cleanup_def st Let_def)
       (simp add: serving_def emit_def)
  have len: "length (registry ?b) < k" using k by (simp add: cleanup_begin_def Let_def)
  have "run sys rej (replicate k Resume) ?P1
          = after_cleanup t
               (?P1\<lparr> p_state := cleanup_end sys ((close_pages rej (registry ?b) ?b)
                       \<lparr> registry := [], effects := effects (close_pages rej (registry ?b) ?b) @ [BrowserClose] \<rparr>),
                    p_awaiting := None \<rparr>)"
    by (rule run_resumes [where ?s0.0 = "?b"]) (use v len in \<open>simp_all add: emit_def serving_def\<close>)
  then have "run sys rej (replicate k Resume) ?P1
          = after_cleanup t (?P1\<lparr> p_state := cleanup sys rej ?s0, p_awaiting := None \<rparr>)"
    by (simp add: cleanup_pieces [OF g0])
  then show ?thesis
    unfolding run_Cons d by (simp add: after_cleanup_def emit_def)
qed

text \<open>
  Claim C4, as amended. From a running server in a well-formed state, whatever triggers
  fire and however they fall between the steps of \<open>cleanup\<close>, the steps performed so far are
  an initial part of: disarm the idle timer (when armed), print the line of entry, destroy
  every open socket, call \<open>close()\<close> on every registered page, disconnect from the browser,
  stop the HTTP server, unregister this server. So the body is entered at most once and
  no step is repeated or taken out of order. When one trigger fires and no other arrives
  before the awaited calls have settled, the effects are exactly: what the handler prints,
  the idle timer cleared (when armed), the line of entry, every socket destroyed, \<open>close()\<close>
  called on every registered page whether or not it rejects, the CDP connection closed (no
  signal goes to the browser process), the HTTP server stopped, the server unregistered,
  the number of the other live servers logged, and the exit of the handler. The registry
  is then empty, and the registry file holds the entries of the other ports whose process
  exists.
\<close>

theorem cleanup_once_in_order:
  "\<not> cleaningUp s \<and> well_formed s \<longrightarrow>
     prefix (filter body_effect
               (drop (length (effects s)) (effects (p_state (run sys rej evs (serving s))))))
            (body_steps s)
   \<and> (length (registry s) < k \<longrightarrow>
        effects (p_state (run sys rej (Trigger t # replicate k Resume) (serving s))) =
          effects s @ trigger_log t
          @ (if idleTimer s then [ClearTimeout] else [])
          @ [ConsoleLog (CHR 0x0A # ''Shutting down...'')]
          @ map SocketDestroy (connections s)
          @ map (\<lambda>(n, e). PageClose (entry_page e)) (registry s)
          @ [BrowserClose, ServerClose, UnregisterServer (server_port s),
             ConsoleLog (stopped_message
               (length (filter (\<lambda>(key, info). key \<noteq> show_int (server_port s)
                                                  \<and> processExists sys (pid info))
                          (loadServersFile sys (servers s)))))]
          @ trigger_exit t
        \<and> \<not> idleTimer (p_state (run sys rej (Trigger t # replicate k Resume) (serving s)))
        \<and> connections (p_state (run sys rej (Trigger t # replicate k Resume) (serving s))) = []
        \<and> registry (p_state (run sys rej (Trigger t # replicate k Resume) (serving s))) = []
        \<and> \<not> browser_connected (p_state (run sys rej (Trigger t # replicate k Resume) (serving s)))
        \<and> \<not> listening (p_state (run sys rej (Trigger t # replicate k Resume) (serving s)))
        \<and> servers (p_state (run sys rej (Trigger t # replicate k Resume) (serving s)))
            = saveServersFile (filter (\<lambda>(key, info). key \<noteq> show_int (server_port s)
                                                       \<and> processExists sys (pid info))
                                 (loadServersFile sys (servers s))))"
proof (intro impI conjI)
  assume a: "\<not> cleaningUp s \<and> well_formed s"
  then show "prefix (filter body_effect
               (drop (length (effects s)) (effects (p_state (run sys rej evs (serving s))))))
            (body_steps s)"
    by (simp add: run_prefix)
next
  assume a: "\<not> cleaningUp s \<and> well_formed s" and k: "length (registry s) < k"
  let ?s0 = "s\<lparr> effects := effects s @ trigger_log t \<rparr>"
  let ?f = "p_state (run sys rej (Trigger t # replicate k Resume) (serving s))"
  have g0: "\<not> cleaningUp ?s0" and wf0: "well_formed ?s0"
    using a by (simp_all add: well_formed_def)
  have f: "?f = (cleanup sys rej ?s0)\<lparr> effects := effects (cleanup sys rej ?s0) @ trigger_exit t \<rparr>"
    using a k by (simp add: run_uninterrupted)
  note c = cleanup_in_order [OF g0 wf0, of sys rej]
  show "effects ?f =
          effects s @ trigger_log t
          @ (if idleTimer s then [ClearTimeout] else [])
          @ [ConsoleLog (CHR 0x0A # ''Shutting down...'')]
          @ map SocketDestroy (connections s)
          @ map (\<lambda>(n, e). PageClose (entry_page e)) (registry s)
          @ [BrowserClose, ServerClose, UnregisterServer (server_port s),
             ConsoleLog (stopped_message
               (length (filter (\<lambda>(key, info). key \<noteq> show_int (server_port s)
                                                  \<and> processExists sys (pid info))
                          (loadServersFile sys (servers s)))))]
          @ trigger_exit t"
    unfolding f using c by (simp add: unregisterServer_result)
  show "\<not> idleTimer ?f" unfolding f using c by simp
  show "connections ?f = []" unfolding f using c by simp
  show "registry ?f = []" unfolding f using c by simp
  show "\<not> browser_connected ?f" unfolding f using c by simp
  show "\<not> listening ?f" unfolding f using c by simp
  show "servers ?f = saveServersFile (filter (\<lambda>(key, info). key \<noteq> show_int (server_port s)
                                                       \<and> processExists sys (pid info))
                                 (loadServersFile sys (servers s)))"
    unfolding f using c by (simp add: unregisterServer_result)
qed

theorem cleanup_once_in_order_counterexample:
  "effects (p_state (run ex_os (\<lambda>p. False)
              [Trigger (Signal ''SIGINT''), Trigger (Signal ''SIGINT''), Resume, Resume]
              (serving ex_server)))
     = [ClearTimeout, ConsoleLog (CHR 0x0A # ''Shutting down...''), SocketDestroy 7, SocketDestroy 8,
        PageClose 0, ProcessExit 0]
   \<and> browser_connected (p_state (run ex_os (\<lambda>p. False)
              [Trigger (Signal ''SIGINT''), Trigger (Signal ''SIGINT''), Resume, Resume]
              (serving ex_server)))
   \<and> listening (p_state (run ex_os (\<lambda>p. False)
              [Trigger (Signal ''SIGINT''), Trigger (Signal ''SIGINT''), Resume, Resume]
              (serving ex_server)))
   \<and> servers (p_state (run ex_os (\<lambda>p. False)
              [Trigger (Signal ''SIGINT''), Trigger (Signal ''SIGINT''), Resume, Resume]
              (serving ex_server))) = servers ex_server"
proof -
  have r: "run ex_os (\<lambda>p. False)
              [Trigger (Signal ''SIGINT''), Trigger (Signal ''SIGINT''), Resume, Resume]
              (serving ex_server)
         = \<lparr> p_state = ex_server\<lparr> cleaningUp := True, idleTimer := False, connections := [],
                 effects := [ClearTimeout, ConsoleLog (CHR 0x0A # ''Shutting down...''),
                             SocketDestroy 7, SocketDestroy 8, PageClose 0, ProcessExit 0] \<rparr>,
             p_handlers = True,
             p_awaiting = Some (PageClosing 0 [], Signal ''SIGINT''),
             p_over = True \<rparr>"
    by (simp add: run_def dispatch_def on_trigger_def call_cleanup_def cleanup_begin_def
          after_cleanup_def emit_def serving_def ex_server_def Let_def)
  show ?thesis unfolding r by (simp add: ex_server_def)
qed

theorem cleanup_once_in_order_witness:
  "prefix (filter body_effect
             (effects (p_state (run ex_os (\<lambda>p. False)
                 [Trigger (Signal ''SIGINT''), Trigger (IdleTimerFired ''30''), Resume]
                 (serving ex_shared)))))
          [ClearTimeout, ConsoleLog (CHR 0x0A # ''Shutting down...''), SocketDestroy 7,
           SocketDestroy 8, PageClose 0, BrowserClose, ServerClose, UnregisterServer 19222]
 \<and> effects (p_state (run ex_os (\<lambda>p. False) [Trigger (Signal ''SIGINT''), Resume, Resume]
               (serving ex_shared)))
     = [ClearTimeout, ConsoleLog (CHR 0x0A # ''Shutting down...''), SocketDestroy 7, SocketDestroy 8,
        PageClose 0, BrowserClose, ServerClose, UnregisterServer 19222,
        ConsoleLog ''Server stopped. Browser remains open. 1 other server(s) still running.'',
        ProcessExit 0]
 \<and> registry (p_state (run ex_os (\<lambda>p. False) [Trigger (Signal ''SIGINT''), Resume, Resume]
               (serving ex_shared))) = []
 \<and> servers (p_state (run ex_os (\<lambda>p. False) [Trigger (Signal ''SIGINT''), Resume, Resume]
               (serving ex_shared)))
     = Content [(''19230'', Info ex_live)]"
proof -
  have wf: "well_formed ex_shared"
    by (simp add: well_formed_def ex_shared_def ex_server_def map_keys_def)
  have g: "\<not> cleaningUp ex_shared"
    by (simp add: ex_shared_def ex_server_def)
  have f: "effects ex_shared = []" "idleTimer ex_shared" "connections ex_shared = [7, 8]"
    "registry ex_shared = [(''a'', \<lparr>entry_page = 0, entry_targetId = ''T0''\<rparr>)]"
    "server_port ex_shared = 19222"
    "servers ex_shared = Content [(''19222'', Info ex_live), (''19224'', Info ex_dead),
                                   (''19230'', Info ex_live)]"
    by (simp_all add: ex_shared_def ex_server_def)
  have l: "loadServersFile ex_os (Content [(''19222'', Info ex_live), (''19224'', Info ex_dead),
                                   (''19230'', Info ex_live)])
             = [(''19222'', ex_live), (''19224'', ex_dead), (''19230'', ex_live)]"
    by (simp add: loadServersFile_def)
  have a: "processExists ex_os (pid ex_live)" "\<not> processExists ex_os (pid ex_dead)"
    by (simp_all add: ex_os_def ex_live_def ex_dead_def)
  have m: "stopped_message (Suc 0) = ''Server stopped. Browser remains open. 1 other server(s) still running.''"
    by (simp add: stopped_message_def show_nat.simps digit_char_def)
  have b: "body_steps ex_shared = [ClearTimeout, ConsoleLog (CHR 0x0A # ''Shutting down...''),
             SocketDestroy 7, SocketDestroy 8, PageClose 0, BrowserClose, ServerClose,
             UnregisterServer 19222]"
    by (simp add: body_steps_def f)
  have r: "replicate 2 Resume = [Resume, Resume]"
    by (simp add: numeral_2_eq_2)
  show ?thesis
    using cleanup_once_in_order [of ex_shared ex_os "\<lambda>p. False"
        "[Trigger (Signal ''SIGINT''), Trigger (IdleTimerFired ''30''), Resume]" 2 "Signal ''SIGINT''"]
      wf g f l a m b r ex_keys
    by (simp add: saveServersFile_def)
qed

section \<open>Startup\<close>

lemma ex_scan: "findAvailablePort ex_bind ex_range = Some (Inr 19226)"
  by (simp add: findAvailablePort_def ex_range_def findAvailablePort_loop_find candidates_ex
        valid_port_def ex_bind_def)

text \<open>
  Integer ports: when the resolved HTTP port is an integer outside 1..65535, or the
  resolved CDP port is one, or the two are equal, \<open>serveWithExternalBrowser\<close> throws the
  corresponding error, and all it has done by then is \<open>killStaleServers()\<close> and, when no
  port was given, the port scan: no browser probe or launch, no HTTP listener, no
  registry entry.
\<close>

lemma serve_rejects_integer_ports:
  "resolve_port env r options = Some (Inr (Num p))
   \<and> resolve_cdpPort config_cdpPort options = Num c \<longrightarrow>
     (p < 1 \<or> p > 65535 \<longrightarrow>
        serveWithExternalBrowser env r config_cdpPort options =
          Some (Inl (''Invalid port: '' @ show_int p @ ''. Must be between 1 and 65535''),
                [KillStaleServers] @ (if o_port options = None then [ScanPorts] else [])))
   \<and> (1 \<le> p \<and> p \<le> 65535 \<and> (c < 1 \<or> c > 65535) \<longrightarrow>
        serveWithExternalBrowser env r config_cdpPort options =
          Some (Inl (''Invalid cdpPort: '' @ show_int c @ ''. Must be between 1 and 65535''),
                [KillStaleServers] @ (if o_port options = None then [ScanPorts] else [])))
   \<and> (1 \<le> p \<and> p \<le> 65535 \<and> 1 \<le> c \<and> c \<le> 65535 \<and> p = c \<longrightarrow>
        serveWithExternalBrowser env r config_cdpPort options =
          Some (Inl ''port and cdpPort must be different'',
                [KillStaleServers] @ (if o_port options = None then [ScanPorts] else [])))
   \<and> (p < 1 \<or> p > 65535 \<or> c < 1 \<or> c > 65535 \<or> p = c \<longrightarrow>
        (\<exists>msg effs. serveWithExternalBrowser env r config_cdpPort options = Some (Inl msg, effs)
                     \<and> filter after_validation effs = []))"
  by (auto simp: serveWithExternalBrowser_def start_server_def Let_def invalid_port_message_def
        invalid_cdpPort_message_def)

lemma serve_rejects_integer_ports_ex:
  "serveWithExternalBrowser ex_env ex_range 9223 ex_opts
     = Some (Inl ''Invalid port: 0. Must be between 1 and 65535'', [KillStaleServers])
 \<and> serveWithExternalBrowser ex_env ex_range 70000 (ex_opts\<lparr> o_port := Some (Num 8080) \<rparr>)
     = Some (Inl ''Invalid cdpPort: 70000. Must be between 1 and 65535'', [KillStaleServers])
 \<and> serveWithExternalBrowser ex_env ex_range 19226 (ex_opts\<lparr> o_port := None \<rparr>)
     = Some (Inl ''port and cdpPort must be different'', [KillStaleServers, ScanPorts])"
proof -
  have r1: "resolve_port ex_env ex_range ex_opts = Some (Inr (Num 0))"
    by (simp add: resolve_port_def ex_opts_def)
  have r2: "resolve_port ex_env ex_range (ex_opts\<lparr> o_port := Some (Num 8080) \<rparr>)
              = Some (Inr (Num 8080))"
    by (simp add: resolve_port_def ex_opts_def)
  have r3: "resolve_port ex_env ex_range (ex_opts\<lparr> o_port := None \<rparr>) = Some (Inr (Num 19226))"
    using ex_scan by (simp add: resolve_port_def ex_opts_def ex_env_def)
  have sh: "show_int 0 = ''0''" "show_int 70000 = ''70000''"
    by (simp_all add: show_int_def show_nat.simps digit_char_def)
  show ?thesis
    using serve_rejects_integer_ports [of ex_env ex_range ex_opts 0 9223 9223]
      serve_rejects_integer_ports [of ex_env ex_range "ex_opts\<lparr> o_port := Some (Num 8080) \<rparr>"
        8080 70000 70000]
      serve_rejects_integer_ports [of ex_env ex_range "ex_opts\<lparr> o_port := None \<rparr>" 19226 19226 19226]
      r1 r2 r3 sh
    by (simp add: resolve_cdpPort_def ex_opts_def)
qed

lemma env_port_abc: "env_port (Some ''abc'') = Some NaN"
  by (simp add: env_port_def parseInt10_def is_space_def is_digit_def)

text \<open>
  Claim C10. For every options value whose resolved HTTP port or CDP port is outside
  1..65535, \<open>serveWithExternalBrowser\<close> throws a descriptive error before it probes or
  launches a browser, starts the HTTP server or registers an entry. The validation misses
  \<open>NaN\<close>, which the launcher passes for \<open>PORT=abc\<close> or \<open>CDP_PORT=abc\<close>. With the port \<open>NaN\<close> and
  a browser answering on the CDP port, the browser is probed, polled and connected to
  before \<open>listen\<close> throws its \<open>RangeError\<close>. With the CDP port \<open>NaN\<close>, a browser path and nothing
  answering, a browser is launched with the debugging port \<open>NaN\<close> and polled until the
  retries run out.
\<close>

theorem serve_rejects_bad_ports:
  "serveWithExternalBrowser ex_env ex_range 9223 (ex_opts\<lparr> o_port := env_port (Some ''abc'') \<rparr>)
     = Some (Inl ''ERR_SOCKET_BAD_PORT'',
             [KillStaleServers, ProbeBrowser (Num 9223), PollEndpoint (Num 9223),
              ConnectOverCDP (Num 9223)])
 \<and> serveWithExternalBrowser ex_silent ex_range 9223
       (ex_opts\<lparr> o_port := Some (Num 8080), o_cdpPort := env_port (Some ''abc''),
                 o_browserPath := Some ''/usr/bin/chromium'' \<rparr>)
     = Some (Inl ''Browser did not start on port NaN within 30s'',
             [KillStaleServers, ProbeBrowser NaN, LaunchBrowser ''/usr/bin/chromium'' NaN,
              PollEndpoint NaN])"
proof -
  have a: "serveWithExternalBrowser ex_env ex_range 9223 (ex_opts\<lparr> o_port := Some NaN \<rparr>)
     = Some (Inl ''ERR_SOCKET_BAD_PORT'',
             [KillStaleServers, ProbeBrowser (Num 9223), PollEndpoint (Num 9223),
              ConnectOverCDP (Num 9223)])"
    by (simp add: serveWithExternalBrowser_def resolve_port_def resolve_cdpPort_def
          start_server_def ex_opts_def ex_env_def)
  have b: "serveWithExternalBrowser ex_silent ex_range 9223
       (ex_opts\<lparr> o_port := Some (Num 8080), o_cdpPort := Some NaN,
                 o_browserPath := Some ''/usr/bin/chromium'' \<rparr>)
     = Some (Inl ''Browser did not start on port NaN within 30s'',
             [KillStaleServers, ProbeBrowser NaN, LaunchBrowser ''/usr/bin/chromium'' NaN,
              PollEndpoint NaN])"
    by (simp add: serveWithExternalBrowser_def resolve_port_def resolve_cdpPort_def
          start_server_def ex_opts_def ex_silent_def)
  show ?thesis
    using a b by (simp only: env_port_abc)
qed

section \<open>The relay\<close>

lemma sendMessage_fields:
  "tabs (sendMessage m s) = tabs s" "childSessions (sendMessage m s) = childSessions s"
  "ws_open (sendMessage m s) = ws_open s" "chrome (sendMessage m s) = chrome s"
  "nextSessionId (sendMessage m s) = nextSessionId s"
  by (simp_all add: sendMessage_def)

lemma events_sendMessage:
  "events (sendMessage m s) = events s @ (if ws_open s \<and> is_event m then [m] else [])"
  by (simp add: sendMessage_def events_def)

lemma events_logger_debug: "events (logger_debug args s) = events s"
  by (simp add: logger_debug_def events_sendMessage)

lemma logger_debug_fields:
  "tabs (logger_debug a s) = tabs s" "childSessions (logger_debug a s) = childSessions s"
  "ws_open (logger_debug a s) = ws_open s" "chrome (logger_debug a s) = chrome s"
  by (simp_all add: logger_debug_def sendMessage_fields)

lemma events_frame: "sent s' = sent s \<Longrightarrow> events s' = events s"
  by (simp add: events_def)

lemma detachTab_effect:
  assumes "map_get (tabs s) tabId = Some tab"
  shows "tabs (detachTab tabId b s) = map_delete (tabs s) tabId
       \<and> childSessions (detachTab tabId b s) = drop_children tabId (childSessions s)
       \<and> events (detachTab tabId b s) = events s @ (if ws_open s then [detached_event tab] else [])"
  using assms
  by (simp add: detachTab_def Let_def updateIcons_def events_def sendMessage_def logger_debug_def
        detached_event_def)

lemma onDebuggerDetach_effect:
  assumes "map_get (tabs s) tabId = Some tab" and "tabId \<noteq> 0"
  shows "tabs (onDebuggerDetach (Some tabId) reason s) = map_delete (tabs s) tabId
       \<and> childSessions (onDebuggerDetach (Some tabId) reason s) = drop_children tabId (childSessions s)
       \<and> events (onDebuggerDetach (Some tabId) reason s)
           = events s @ (if ws_open s then [detached_event tab] else [])"
  using assms
  by (simp add: onDebuggerDetach_def Let_def updateIcons_def events_def sendMessage_def
        logger_debug_def detached_event_def)

lemma onRemoved_effect:
  assumes "map_get (tabs s) tabId = Some tab"
  shows "tabs (onRemoved tabId s) = map_delete (tabs s) tabId
       \<and> childSessions (onRemoved tabId s) = drop_children tabId (childSessions s)
       \<and> events (onRemoved tabId s) = events s @ (if ws_open s then [detached_event tab] else [])"
proof -
  let ?s1 = "logger_debug [''Tab closed:'', show_int tabId] s"
  have t: "map_get (tabs ?s1) tabId = Some tab"
    using assms by (simp add: logger_debug_fields)
  have "onRemoved tabId s = detachTab tabId False ?s1"
    using assms by (simp add: onRemoved_def)
  then show ?thesis
    using detachTab_effect [OF t, of False]
    by (simp add: logger_debug_fields events_logger_debug)
qed

lemma drop_children_none: "map_get (drop_children tabId cs) k \<noteq> Some tabId"
  by (induction cs) (auto simp: drop_children_def split: if_splits)

lemma drop_children_other:
  "p \<noteq> tabId \<Longrightarrow> (k, p) \<in> set (drop_children tabId cs) \<longleftrightarrow> (k, p) \<in> set cs"
  by (auto simp: drop_children_def)

text \<open>
  Claim C3. For a tab in the tab table (with a tab id other than 0), the three ways of
  detaching it, \<open>detachTab\<close>, \<open>onDebuggerDetach\<close> and the \<open>tabs.onRemoved\<close> listener, have
  the same effect: the tab's entry leaves the tab table, every child session whose
  parent is the tab leaves the child-session table, and the same forwarded event is
  written to the socket, which for an attached tab and an open socket is one
  \<open>Target.detachedFromTarget\<close> event carrying the tab's session id and target id.
\<close>

theorem detach_symmetry:
  "map_get (tabs s) tabId = Some tab \<and> tabId \<noteq> 0 \<longrightarrow>
     (\<forall>s' \<in> {detachTab tabId shouldDetachDebugger s, onDebuggerDetach (Some tabId) reason s,
               onRemoved tabId s}.
        tabs s' = map_delete (tabs s) tabId
        \<and> map_get (tabs s') tabId = None
        \<and> childSessions s' = drop_children tabId (childSessions s)
        \<and> (\<forall>k. map_get (childSessions s') k \<noteq> Some tabId)
        \<and> events s' = events s @ (if ws_open s then [detached_event tab] else [])
        \<and> (ws_open s \<and> sessionId tab = Some sid \<and> targetId tab = Some tid \<longrightarrow>
              events s' = events s
                @ [ForwardCDPEvent None ''Target.detachedFromTarget''
                     (Some (JObj [(''sessionId'', JStr sid), (''targetId'', JStr tid)]))]))"
proof (intro impI ballI)
  fix s'
  assume a: "map_get (tabs s) tabId = Some tab \<and> tabId \<noteq> 0"
    and mem: "s' \<in> {detachTab tabId shouldDetachDebugger s, onDebuggerDetach (Some tabId) reason s,
                      onRemoved tabId s}"
  from mem consider "s' = detachTab tabId shouldDetachDebugger s"
    | "s' = onDebuggerDetach (Some tabId) reason s" | "s' = onRemoved tabId s"
    by blast
  then have eff: "tabs s' = map_delete (tabs s) tabId
        \<and> childSessions s' = drop_children tabId (childSessions s)
        \<and> events s' = events s @ (if ws_open s then [detached_event tab] else [])"
  proof cases
    case 1
    then show ?thesis using a detachTab_effect [of s tabId tab shouldDetachDebugger] by simp
  next
    case 2
    then show ?thesis using a onDebuggerDetach_effect [of s tabId tab reason] by simp
  next
    case 3
    then show ?thesis using a onRemoved_effect [of s tabId tab] by simp
  qed
  then show "tabs s' = map_delete (tabs s) tabId
        \<and> map_get (tabs s') tabId = None
        \<and> childSessions s' = drop_children tabId (childSessions s)
        \<and> (\<forall>k. map_get (childSessions s') k \<noteq> Some tabId)
        \<and> events s' = events s @ (if ws_open s then [detached_event tab] else [])
        \<and> (ws_open s \<and> sessionId tab = Some sid \<and> targetId tab = Some tid \<longrightarrow>
              events s' = events s
                @ [ForwardCDPEvent None ''Target.detachedFromTarget''
                     (Some (JObj [(''sessionId'', JStr sid), (''targetId'', JStr tid)]))])"
    by (simp add: map_get_map_delete_same drop_children_none detached_event_def opt_field_def)
qed

theorem detach_symmetry_witness:
  "tabs (detachTab 5 True ex_relay) = [(6, ex_tab6)]
 \<and> childSessions (detachTab 5 True ex_relay) = [(JStr ''child-2'', 6)]
 \<and> events (detachTab 5 True ex_relay)
     = [ForwardCDPEvent None ''Target.detachedFromTarget''
          (Some (JObj [(''sessionId'', JStr ''pw-tab-1''), (''targetId'', JStr ''T5'')]))]
 \<and> tabs (onDebuggerDetach (Some 5) ''target_closed'' ex_relay) = [(6, ex_tab6)]
 \<and> childSessions (onDebuggerDetach (Some 5) ''target_closed'' ex_relay) = [(JStr ''child-2'', 6)]
 \<and> events (onDebuggerDetach (Some 5) ''target_closed'' ex_relay)
     = [ForwardCDPEvent None ''Target.detachedFromTarget''
          (Some (JObj [(''sessionId'', JStr ''pw-tab-1''), (''targetId'', JStr ''T5'')]))]
 \<and> tabs (onRemoved 5 ex_relay) = [(6, ex_tab6)]
 \<and> childSessions (onRemoved 5 ex_relay) = [(JStr ''child-2'', 6)]
 \<and> events (onRemoved 5 ex_relay)
     = [ForwardCDPEvent None ''Target.detachedFromTarget''
          (Some (JObj [(''sessionId'', JStr ''pw-tab-1''), (''targetId'', JStr ''T5'')]))]"
proof -
  have t: "map_get (tabs ex_relay) 5 = Some ex_tab5 \<and> (5::int) \<noteq> 0"
    by (simp add: ex_relay_def)
  have f: "ws_open ex_relay" "sessionId ex_tab5 = Some ''pw-tab-1''" "targetId ex_tab5 = Some ''T5''"
    "events ex_relay = []" "map_delete (tabs ex_relay) 5 = [(6, ex_tab6)]"
    "drop_children 5 (childSessions ex_relay) = [(JStr ''child-2'', 6)]"
    by (simp_all add: ex_relay_def ex_tab5_def events_def map_delete_def drop_children_def)
  show ?thesis
    using detach_symmetry [of ex_relay 5 ex_tab5 True "''target_closed''" "''pw-tab-1''" "''T5''"] t f
    by (simp add: detached_event_def opt_field_def)
qed

lemma resolve_by_session:
  assumes "cmd_sessionId msg = Some sid" "sid \<noteq> []" "getTabBySessionId (tabs s) sid = Some (t, tab)"
  shows "fst (resolve_target msg s) = (Some t, Some tab)"
  using assms
  by (simp add: resolve_target_def by_sessionId_def by_childSession_def by_targetId_def Let_def)

lemma resolve_by_child:
  assumes "cmd_sessionId msg = Some sid" "sid \<noteq> []" "getTabBySessionId (tabs s) sid = None"
    "map_get (childSessions s) (JStr sid) = Some parent" "parent \<noteq> 0"
    "map_get (tabs s) parent = Some tab"
  shows "fst (resolve_target msg s) = (Some parent, Some tab)"
  using assms
  by (simp add: resolve_target_def by_sessionId_def by_childSession_def by_targetId_def Let_def)

lemma unmatched_session:
  assumes "matches_no_table msg s"
  shows "by_childSession msg (by_sessionId msg s) s = ((None, None), s)"
  using assms
  by (auto simp: matches_no_table_def by_sessionId_def by_childSession_def split: option.splits)

lemma resolve_by_targetId:
  assumes "matches_no_table msg s" "cdp_params msg = Some (JObj kvs)"
    "map_of kvs ''targetId'' = Some v" "getTabByTargetId (tabs s) v = Some (t, tab)"
  shows "fst (resolve_target msg s) = (Some t, Some tab)"
  using assms
  by (simp add: resolve_target_def unmatched_session by_targetId_def)

lemma resolve_nothing:
  assumes "matches_no_table msg s" "no_targetId_match msg s"
  shows "resolve_target msg s = ((None, None), s)"
  using assms
  by (auto simp: resolve_target_def unmatched_session by_targetId_def no_targetId_match_def
        split: option.splits jval.splits)

lemma handleCommand_forwards:
  assumes "cmd_method msg = ''forwardCDPCommand''" "fst (resolve_target msg s) = (Some t, Some tab)"
    "t \<noteq> 0" "\<not> special_method (cdp_method msg)"
  shows "fst (handleCommand b msg s)
           = debugger_sendCommand b t
               (if cmd_sessionId msg \<noteq> sessionId tab then cmd_sessionId msg else None)
               (cdp_method msg) (cdp_params msg)"
proof -
  obtain s1 where r: "resolve_target msg s = ((Some t, Some tab), s1)"
    using assms(2) by (cases "resolve_target msg s") auto
  show ?thesis
    using assms(1,3,4) by (simp add: handleCommand_def r special_method_def Let_def)
qed

lemma handleCommand_no_tab:
  assumes "cmd_method msg = ''forwardCDPCommand''" "matches_no_table msg s" "no_targetId_match msg s"
    "\<not> special_method (cdp_method msg)"
  shows "handleCommand b msg s
           = (Inl (''No tab found for method '' @ cdp_method msg @ '' sessionId: ''
                    @ show_opt (cmd_sessionId msg)), s)"
  using assms(1,4)
  by (simp add: handleCommand_def resolve_nothing [OF assms(2,3)] special_method_def
        no_tab_message_def)

text \<open>
  Claim C1. For a \<open>forwardCDPCommand\<close>, \<open>handleCommand\<close> resolves the target tab in this
  order: a (non-empty) session id that is the session id of a tab resolves to that tab;
  otherwise a session id that is a child session resolves to the child's parent tab;
  and a command whose session id matches no table resolves through a \<open>targetId\<close> in its
  parameters when a tab has that target id. A command resolved to a tab is sent to that
  tab's debugger. When nothing resolves and the method is not one of the three handled
  on their own, \<open>handleCommand\<close> throws an error that names the method and the session
  id.
\<close>

theorem handleCommand_resolution:
  "cmd_method msg = ''forwardCDPCommand'' \<longrightarrow>
     (cmd_sessionId msg = Some sid \<and> sid \<noteq> [] \<and> getTabBySessionId (tabs s) sid = Some (t, tab)
        \<longrightarrow> fst (resolve_target msg s) = (Some t, Some tab))
   \<and> (cmd_sessionId msg = Some sid \<and> sid \<noteq> [] \<and> getTabBySessionId (tabs s) sid = None
        \<and> map_get (childSessions s) (JStr sid) = Some parent \<and> parent \<noteq> 0
        \<and> map_get (tabs s) parent = Some tab
        \<longrightarrow> fst (resolve_target msg s) = (Some parent, Some tab))
   \<and> (matches_no_table msg s \<and> cdp_params msg = Some (JObj kvs)
        \<and> map_of kvs ''targetId'' = Some v \<and> getTabByTargetId (tabs s) v = Some (t, tab)
        \<longrightarrow> fst (resolve_target msg s) = (Some t, Some tab))
   \<and> (fst (resolve_target msg s) = (Some t, Some tab) \<and> t \<noteq> 0
        \<and> \<not> special_method (cdp_method msg)
        \<longrightarrow> fst (handleCommand b msg s)
              = debugger_sendCommand b t
                  (if cmd_sessionId msg \<noteq> sessionId tab then cmd_sessionId msg else None)
                  (cdp_method msg) (cdp_params msg))
   \<and> (matches_no_table msg s \<and> no_targetId_match msg s \<and> \<not> special_method (cdp_method msg)
        \<longrightarrow> handleCommand b msg s
              = (Inl (''No tab found for method '' @ cdp_method msg @ '' sessionId: ''
                       @ show_opt (cmd_sessionId msg)), s))"
  using resolve_by_session [of msg sid s t tab] resolve_by_child [of msg sid s parent tab]
    resolve_by_targetId [of msg s kvs v t tab] handleCommand_forwards [of msg s t tab b]
    handleCommand_no_tab [of msg s b]
  by blast

theorem handleCommand_resolution_witness:
  "fst (resolve_target (ex_cmd (Some ''pw-tab-2'') None) ex_relay) = (Some 6, Some ex_tab6)
 \<and> fst (resolve_target (ex_cmd (Some ''child-1'') None) ex_relay) = (Some 5, Some ex_tab5)
 \<and> fst (resolve_target (ex_cmd (Some ''stale'') (Some (JObj [(''targetId'', JStr ''T6'')]))) ex_relay)
     = (Some 6, Some ex_tab6)
 \<and> fst (handleCommand ex_browser (ex_cmd (Some ''child-1'') None) ex_relay) = Inr (Some (JObj []))
 \<and> handleCommand ex_browser (ex_cmd (Some ''stale'') None) ex_relay
     = (Inl ''No tab found for method Page.navigate sessionId: stale'', ex_relay)"
proof -
  have m: "\<And>sid ps. cmd_method (ex_cmd sid ps) = ''forwardCDPCommand''"
    "\<And>sid ps. cmd_sessionId (ex_cmd sid ps) = sid"
    "\<And>sid ps. cdp_params (ex_cmd sid ps) = ps"
    "\<And>sid ps. cdp_method (ex_cmd sid ps) = ''Page.navigate''"
    by (simp_all add: ex_cmd_def)
  have tabs5: "ex_tab5 \<noteq> ex_tab6" by (simp add: ex_tab5_def ex_tab6_def)
  have l1: "getTabBySessionId (tabs ex_relay) ''pw-tab-2'' = Some (6, ex_tab6)"
    by (simp add: ex_relay_def ex_tab5_def ex_tab6_def)
  have l2: "getTabBySessionId (tabs ex_relay) ''child-1'' = None"
    "map_get (childSessions ex_relay) (JStr ''child-1'') = Some 5"
    "map_get (tabs ex_relay) 5 = Some ex_tab5"
    by (simp_all add: ex_relay_def ex_tab5_def ex_tab6_def)
  have l3: "matches_no_table (ex_cmd (Some ''stale'') (Some (JObj [(''targetId'', JStr ''T6'')]))) ex_relay"
    "matches_no_table (ex_cmd (Some ''stale'') None) ex_relay"
    "no_targetId_match (ex_cmd (Some ''stale'') None) ex_relay"
    "getTabByTargetId (tabs ex_relay) (JStr ''T6'') = Some (6, ex_tab6)"
    by (simp_all add: matches_no_table_def no_targetId_match_def m ex_relay_def ex_tab5_def ex_tab6_def)
  have sp: "\<not> special_method ''Page.navigate''"
    by (simp add: special_method_def)
  have snd: "debugger_sendCommand ex_browser 5 (Some ''child-1'') ''Page.navigate'' None
               = Inr (Some (JObj []))"
    by (simp add: ex_browser_def)
  have c1: "fst (resolve_target (ex_cmd (Some ''child-1'') None) ex_relay) = (Some 5, Some ex_tab5)"
    using handleCommand_resolution [of "ex_cmd (Some ''child-1'') None" "''child-1''" ex_relay
        5 ex_tab5 5 "[]" JNull ex_browser] m l2
    by simp
  show ?thesis
    using handleCommand_resolution [of "ex_cmd (Some ''pw-tab-2'') None" "''pw-tab-2''" ex_relay
        6 ex_tab6 6 "[]" JNull ex_browser]
      handleCommand_resolution [of "ex_cmd (Some ''child-1'') None" "''child-1''" ex_relay
        5 ex_tab5 5 "[]" JNull ex_browser]
      handleCommand_resolution [of "ex_cmd (Some ''stale'') (Some (JObj [(''targetId'', JStr ''T6'')]))"
        "''stale''" ex_relay 6 ex_tab6 6 "[(''targetId'', JStr ''T6'')]" "JStr ''T6''" ex_browser]
      handleCommand_resolution [of "ex_cmd (Some ''stale'') None" "''stale''" ex_relay
        6 ex_tab6 6 "[]" JNull ex_browser]
      m l1 l2 l3 sp snd c1
    by (simp add: ex_tab5_def)
qed

end
